theory Spec2Isabelle
  imports Complex_Main "HOL-Library.Sublist" "HOL-Library.AList"
begin

section \<open>Strings\<close>

text \<open>
  Python strings are modelled as \<open>string\<close> (lists of 8-bit characters). The helpers below
  model the \<open>str\<close> methods the scanner uses, restricted to the ASCII range: \<open>lower\<close>
  folds \<open>A\<close>..\<open>Z\<close> only and \<open>strip\<close> removes the ASCII whitespace characters
  (code points 9 to 13, 28 to 31 and 32).
\<close>

definition is_space :: "char \<Rightarrow> bool" where
  "is_space c = (let n = of_char c :: nat in (9 \<le> n \<and> n \<le> 13) \<or> (28 \<le> n \<and> n \<le> 32))"

definition lstrip :: "string \<Rightarrow> string" where
  "lstrip s = dropWhile is_space s"

definition rstrip :: "string \<Rightarrow> string" where
  "rstrip s = rev (dropWhile is_space (rev s))"

definition strip :: "string \<Rightarrow> string" where
  "strip s = rstrip (lstrip s)"

definition lower_char :: "char \<Rightarrow> char" where
  "lower_char c =
     (let n = of_char c :: nat in if 65 \<le> n \<and> n \<le> 90 then char_of (n + 32) else c)"

definition lower :: "string \<Rightarrow> string" where
  "lower s = map lower_char s"

text \<open>Python's \<^verbatim>\<open>needle in haystack\<close> on strings: a contiguous occurrence.\<close>

fun str_in :: "string \<Rightarrow> string \<Rightarrow> bool" where
  "str_in needle [] = (needle = [])"
| "str_in needle (h # hs) = (prefix needle (h # hs) \<or> str_in needle hs)"

text \<open>
  The specification's notion, stated independently of \<open>lower\<close> and of the search:
  \<open>needle\<close> is a case-insensitive substring of \<open>hay\<close> when some contiguous stretch of
  \<open>hay\<close> has the length of \<open>needle\<close> and agrees with it character by character up to case.
\<close>

definition ci_eq :: "char \<Rightarrow> char \<Rightarrow> bool" where
  "ci_eq a b = (lower_char a = lower_char b)"

definition ci_substring :: "string \<Rightarrow> string \<Rightarrow> bool" where
  "ci_substring needle hay =
     (\<exists>pre mid suf. hay = pre @ mid @ suf \<and> list_all2 ci_eq needle mid)"

section \<open>Python errors\<close>

datatype py_error = ValueError string | TypeError string

section \<open>Target normalisation\<close>

text \<open>
  \<^verbatim>\<open>re.sub(r'^https?://', '', url)\<close>: the pattern is anchored at the start of the string, so
  at most one occurrence is removed; the optional \<open>s\<close> is greedy.
\<close>

definition strip_scheme :: "string \<Rightarrow> string" where
  "strip_scheme s =
     (if prefix ''https://'' s then drop 8 s
      else if prefix ''http://'' s then drop 7 s
      else s)"

definition normalize_url :: "string \<Rightarrow> string" where
  "normalize_url url = ''https://'' @ strip_scheme (strip url)"

section \<open>Reflection detection and response comparison\<close>

record reflection_details =
  is_reflected :: bool
  location_reflection :: bool
  reflection_context :: "string option"

text \<open>
  \<open>validate_response_reflection\<close> has two result shapes: the tuple \<^verbatim>\<open>(False, None)\<close> when
  the payload value is falsy, and the \<^verbatim>\<open>reflection_details\<close> dictionary otherwise.
\<close>

datatype reflection_result = Tuple_False_None | Details reflection_details

definition validate_response_reflection ::
  "string \<Rightarrow> string \<Rightarrow> string option \<Rightarrow> reflection_result" where
  "validate_response_reflection response_text payload_value location_header =
     (if payload_value = [] then Tuple_False_None
      else
        let d0 = \<lparr>is_reflected = False, location_reflection = False, reflection_context = None\<rparr>
        in case location_header of
             None \<Rightarrow> Details d0
           | Some loc \<Rightarrow>
               if loc \<noteq> [] \<and> str_in (lower payload_value) (lower loc)
               then Details (d0\<lparr>location_reflection := True,
                                 reflection_context := Some (''Location: '' @ loc)\<rparr>)
               else Details d0)"

text \<open>What a caller reads as "a Location reflection was reported".\<close>

definition reports_location_reflection :: "reflection_result \<Rightarrow> bool" where
  "reports_location_reflection r =
     (case r of Tuple_False_None \<Rightarrow> False | Details d \<Rightarrow> location_reflection d)"

text \<open>
  \<^verbatim>\<open>is_reflected, reflection_context = validate_response_reflection(...)\<close>: unpacking into
  two targets. The tuple unpacks; the dictionary iterates over its three keys and raises.
\<close>

definition unpack2 :: "reflection_result \<Rightarrow> py_error + (bool \<times> string option)" where
  "unpack2 r =
     (case r of
        Tuple_False_None \<Rightarrow> Inr (False, None)
      | Details d \<Rightarrow> Inl (ValueError ''too many values to unpack (expected 2)''))"

record probe_result =
  pr_status :: int
  pr_length :: int
  pr_headers :: "string \<rightharpoonup> string"
  pr_content :: string

record differences =
  status_changed :: bool
  length_changed :: bool
  content_changed :: bool
  headers_changed :: bool
  reflection_found :: bool
  similarity_score :: real

definition important_headers :: "string list" where
  "important_headers = [''server'', ''x-powered-by'', ''x-cache'', ''cache-control'', ''location'']"

text \<open>
  \<open>ratio a b\<close> stands for the library call \<^verbatim>\<open>difflib.SequenceMatcher(None, a, b).ratio()\<close>;
  it is a parameter of the model.
\<close>

definition compare_responses ::
  "(string \<Rightarrow> string \<Rightarrow> real) \<Rightarrow> probe_result \<Rightarrow> probe_result \<Rightarrow> string \<Rightarrow> real
     \<Rightarrow> py_error + (bool \<times> differences)" where
  "compare_responses ratio baseline test_response payload_value threshold =
     (let status_diff = \<bar>pr_status baseline - pr_status test_response\<bar>;
          status_chg = (status_diff \<ge> 100);
          length_chg =
            (if pr_length baseline > 0
             then real_of_int \<bar>pr_length test_response - pr_length baseline\<bar>
                    / real_of_int (pr_length baseline) > 0.15
             else False);
          header_changes =
            filter (\<lambda>header. pr_headers baseline header \<noteq> pr_headers test_response header)
              important_headers
      in case unpack2 (validate_response_reflection (pr_content test_response) payload_value
                         (Some (pr_content baseline))) of
           Inl e \<Rightarrow> Inl e
         | Inr (is_refl, reflection_ctx) \<Rightarrow>
             let similarity =
                   (if pr_content baseline \<noteq> [] \<and> pr_content test_response \<noteq> []
                    then ratio (take 1000 (pr_content baseline))
                           (take 1000 (pr_content test_response))
                    else 1);
                 is_different =
                   (status_chg \<or> length_chg \<or> (is_refl \<and> similarity < threshold)
                    \<or> (length header_changes \<ge> 2 \<and> similarity < threshold))
             in Inr (is_different,
                  \<lparr>status_changed = status_chg, length_changed = length_chg,
                   content_changed = False, headers_changed = (length header_changes > 0),
                   reflection_found = is_refl, similarity_score = similarity\<rparr>))"

section \<open>The environment of a verification attempt\<close>

text \<open>
  One HTTP request as \<^verbatim>\<open>requests.get\<close> receives it, and what comes back: a response or a
  \<^verbatim>\<open>RequestException\<close> (with its message). Response headers are kept as a list of
  name/value pairs; \<open>header_get\<close> is the case-insensitive lookup with a default that
  \<^verbatim>\<open>response.headers.get(name, default)\<close> performs.
\<close>

record http_request =
  rq_url :: string
  rq_headers :: "(string \<times> string) list"
  rq_timeout :: int
  rq_allow_redirects :: bool

record http_response =
  status_code :: int
  headers :: "(string \<times> string) list"
  resp_text :: string

datatype http_outcome = Response http_response | RequestException string

text \<open>
  The environment is deterministic but otherwise arbitrary: the outcome of a request may
  depend on every request issued before it. \<open>cache_busters\<close> supplies the three tokens
  \<^verbatim>\<open>verify_{time}_{i}_{urandom}\<close> minted at the start of an attempt (clock and randomness
  belong to the environment), and \<open>load_payloads\<close> is \<^verbatim>\<open>json.load\<close> of the payload file,
  giving the \<^verbatim>\<open>"headers"\<close> dictionary in file order or the exception raised.
\<close>

record env =
  http_get :: "http_request list \<Rightarrow> http_request \<Rightarrow> http_outcome"
  cache_busters :: "http_request list \<Rightarrow> string \<times> string \<times> string"
  load_payloads :: "string \<Rightarrow> string + (string \<times> string list) list"

datatype pbar_event =
  Set_description string
| Set_postfix nat nat string
| Update_one
| Update_rest

record vulnerability_data =
  vd_url :: string
  vd_header :: string
  vd_status_code :: int
  vd_location :: string
  vd_reflection_details :: reflection_details
  vd_verification_status :: string
  vd_verification_type :: string

text \<open>
  The observable effects of a run: the requests issued (in order), the arguments of
  \<^verbatim>\<open>time.sleep\<close> (seconds), the records appended to the finding log (file name and record),
  the lines given to \<open>log\<close> (level and message) and the calls on the progress bar.
\<close>

record world =
  sent :: "http_request list"
  slept :: "real list"
  appended :: "(string \<times> vulnerability_data) list"
  console :: "(string \<times> string) list"
  progress :: "pbar_event list"

definition USER_AGENT :: string where
  "USER_AGENT = ''Mozilla/5.0 (Windows NT 10.0; Win64; x64) AppleWebKit/537.36 (KHTML, like Gecko) Chrome/112.0.0.0 Safari/537.36''"

definition header_get :: "(string \<times> string) list \<Rightarrow> string \<Rightarrow> string \<Rightarrow> string" where
  "header_get hs name dflt =
     (case find (\<lambda>(k, v). lower k = lower name) hs of
        None \<Rightarrow> dflt
      | Some (k, v) \<Rightarrow> v)"

definition sleep :: "real \<Rightarrow> world \<Rightarrow> world" where
  "sleep secs w = w\<lparr>slept := slept w @ [secs]\<rparr>"

definition log :: "string \<Rightarrow> string \<Rightarrow> world \<Rightarrow> world" where
  "log level message w = w\<lparr>console := console w @ [(level, message)]\<rparr>"

definition requests_get :: "env \<Rightarrow> http_request \<Rightarrow> world \<Rightarrow> http_outcome \<times> world" where
  "requests_get e rq w = (http_get e (sent w) rq, w\<lparr>sent := sent w @ [rq]\<rparr>)"

section \<open>The 302 verification protocol\<close>

record finding =
  f_url :: string
  f_status_code :: int
  f_location :: string
  f_reflection :: reflection_details
  f_headers :: "(string \<times> string) list"

definition baseline_request :: "string \<Rightarrow> string \<Rightarrow> int \<Rightarrow> http_request" where
  "baseline_request url cb timeout =
     \<lparr>rq_url = url @ ''?cb='' @ cb, rq_headers = [(''User-Agent'', USER_AGENT)],
      rq_timeout = timeout, rq_allow_redirects = False\<rparr>"

text \<open>
  The probe's header dictionary \<^verbatim>\<open>{"User-Agent": USER_AGENT, header_name: header_value}\<close>:
  a later entry with the same key replaces the earlier one.
\<close>

definition probe_request :: "string \<Rightarrow> string \<Rightarrow> string \<Rightarrow> int \<Rightarrow> http_request" where
  "probe_request test_url header_name header_value timeout =
     \<lparr>rq_url = test_url,
      rq_headers = AList.update header_name header_value [(''User-Agent'', USER_AGENT)],
      rq_timeout = timeout, rq_allow_redirects = False\<rparr>"

text \<open>
  The loop over \<^verbatim>\<open>cache_busters[1:]\<close>. A \<^verbatim>\<open>RequestException\<close> skips the probe (and its
  sleep). Subscripting the tuple that \<open>validate_response_reflection\<close> returns for a falsy
  header value raises \<^verbatim>\<open>TypeError\<close>, which no handler of \<open>verify_302_poisoning\<close> catches.
\<close>

fun probe_loop ::
  "env \<Rightarrow> string \<Rightarrow> string \<Rightarrow> string \<Rightarrow> int \<Rightarrow> string list \<Rightarrow> finding list \<Rightarrow> world
     \<Rightarrow> (py_error + finding list) \<times> world" where
  "probe_loop e url header_name header_value timeout [] results w = (Inr results, w)"
| "probe_loop e url header_name header_value timeout (cache_buster # rest) results w =
     (let test_url = url @ ''?'' @ cache_buster;
          (outcome, w1) = requests_get e (probe_request test_url header_name header_value timeout) w
      in case outcome of
           RequestException msg \<Rightarrow>
             probe_loop e url header_name header_value timeout rest results w1
         | Response response \<Rightarrow>
             if status_code response = 302 then
               let location = header_get (headers response) ''Location'' ''''
               in case validate_response_reflection (resp_text response) header_value (Some location) of
                    Tuple_False_None \<Rightarrow>
                      (Inl (TypeError ''tuple indices must be integers or slices, not str''), w1)
                  | Details reflection \<Rightarrow>
                      let results1 =
                            (if location_reflection reflection
                             then results @
                                    [\<lparr>f_url = test_url, f_status_code = status_code response,
                                      f_location = location, f_reflection = reflection,
                                      f_headers = headers response\<rparr>]
                             else results)
                      in probe_loop e url header_name header_value timeout rest results1
                           (sleep 1 w1)
             else probe_loop e url header_name header_value timeout rest results (sleep 1 w1))"

definition verify_302_poisoning ::
  "env \<Rightarrow> string \<Rightarrow> string \<Rightarrow> string \<Rightarrow> int \<Rightarrow> world
     \<Rightarrow> (py_error + (finding option \<times> string option)) \<times> world" where
  "verify_302_poisoning e url header_name header_value timeout w =
     (let (cb0, cb1, cb2) = cache_busters e (sent w);
          (outcome, w1) = requests_get e (baseline_request url cb0 timeout) w
      in case outcome of
           RequestException msg \<Rightarrow>
             (Inr (None, Some (''Error during verification: '' @ msg)), w1)
         | Response baseline \<Rightarrow>
             let baseline_location = header_get (headers baseline) ''Location'' ''''
             in if status_code baseline = 302
                   \<and> str_in (lower header_value) (lower baseline_location)
                then (Inr (None, Some ''Baseline already contains payload in redirect''), w1)
                else
                  (case probe_loop e url header_name header_value timeout [cb1, cb2] [] w1 of
                     (Inl err, w2) \<Rightarrow> (Inl err, w2)
                   | (Inr results, w2) \<Rightarrow>
                       if length results \<ge> 2 \<and> card (set (map f_location results)) = 1
                       then (Inr (Some (results ! 0), None), w2)
                       else (Inr (None, Some ''Inconsistent or insufficient 302 responses''), w2)))"

text \<open>
  Observations of one attempt started in world \<open>w\<close>, used to state its properties: the
  baseline request, the first probe request, and the list \<^verbatim>\<open>results\<close> of recorded probe
  successes with which the probing loop ends (\<open>None\<close> when the attempt is rejected at the
  baseline stage or the loop is left by an exception).
\<close>

definition baseline_of :: "env \<Rightarrow> string \<Rightarrow> int \<Rightarrow> world \<Rightarrow> http_request" where
  "baseline_of e url timeout w = baseline_request url (fst (cache_busters e (sent w))) timeout"

definition first_probe_of :: "env \<Rightarrow> string \<Rightarrow> string \<Rightarrow> string \<Rightarrow> int \<Rightarrow> world \<Rightarrow> http_request" where
  "first_probe_of e url header_name header_value timeout w =
     probe_request (url @ ''?'' @ fst (snd (cache_busters e (sent w)))) header_name header_value
       timeout"

definition recorded_probes ::
  "env \<Rightarrow> string \<Rightarrow> string \<Rightarrow> string \<Rightarrow> int \<Rightarrow> world \<Rightarrow> finding list option" where
  "recorded_probes e url header_name header_value timeout w =
     (let (cb0, cb1, cb2) = cache_busters e (sent w);
          (outcome, w1) = requests_get e (baseline_request url cb0 timeout) w
      in case outcome of
           RequestException msg \<Rightarrow> None
         | Response baseline \<Rightarrow>
             if status_code baseline = 302
                \<and> str_in (lower header_value) (lower (header_get (headers baseline) ''Location'' ''''))
             then None
             else (case fst (probe_loop e url header_name header_value timeout [cb1, cb2] [] w1) of
                     Inl err \<Rightarrow> None
                   | Inr results \<Rightarrow> Some results))"

section \<open>Testing one URL against the payload catalog\<close>

definition str_of_error :: "py_error \<Rightarrow> string" where
  "str_of_error err = (case err of ValueError m \<Rightarrow> m | TypeError m \<Rightarrow> m)"

definition truncate_display :: "string \<Rightarrow> string" where
  "truncate_display s = (if length s > 10 then take 8 s @ ''...'' else s)"

definition url_display :: "string \<Rightarrow> string" where
  "url_display url = (if length url > 20 then ''...'' @ drop (length url - 17) url else url)"

text \<open>
  The progress-bar calls made for one header/value pair when a bar was passed. (In the log
  line of \<open>record_finding\<close> below the source's arrow character is written \<open>->\<close>.)
\<close>

definition show_progress :: "string \<Rightarrow> string \<Rightarrow> string \<Rightarrow> nat \<Rightarrow> nat \<Rightarrow> world \<Rightarrow> world" where
  "show_progress url header_name header_value tested_headers total_headers w =
     w\<lparr>progress := progress w @
          [Set_description
             (''Testing '' @ truncate_display header_name @ '':'' @ truncate_display header_value),
           Set_postfix tested_headers total_headers (url_display url),
           Update_one]\<rparr>"

definition record_finding :: "string \<Rightarrow> string \<Rightarrow> string \<Rightarrow> string \<Rightarrow> finding \<Rightarrow> world \<Rightarrow> world" where
  "record_finding url output_file header_name header_value result w =
     (let vulnerability =
            \<lparr>vd_url = url, vd_header = header_name @ '': '' @ header_value,
             vd_status_code = f_status_code result, vd_location = f_location result,
             vd_reflection_details = f_reflection result,
             vd_verification_status = ''verified'', vd_verification_type = ''302_redirect''\<rparr>;
          w1 = w\<lparr>appended := appended w @ [(output_file, vulnerability)]\<rparr>;
          w2 = log ''SUCCESS''
                 (''Found 302 cache poisoning: '' @ header_name @ '': '' @ header_value) w1
      in log ''INFO'' (''-> Redirects to: '' @ take 60 (f_location result) @ ''...'') w2)"

text \<open>
  The two nested loops over the catalog visit the header/value pairs in the order of
  \<open>catalog_pairs\<close>. The result is \<open>Some err\<close> when an exception left the loops.
\<close>

definition catalog_pairs :: "(string \<times> string list) list \<Rightarrow> (string \<times> string) list" where
  "catalog_pairs hs = concat (map (\<lambda>(header_name, header_values). map (Pair header_name) header_values) hs)"

fun test_pairs ::
  "env \<Rightarrow> string \<Rightarrow> string \<Rightarrow> int \<Rightarrow> bool \<Rightarrow> nat \<Rightarrow> nat \<Rightarrow> (string \<times> string) list \<Rightarrow> world
     \<Rightarrow> py_error option \<times> world" where
  "test_pairs e url output_file timeout pbar total_headers tested_headers [] w = (None, w)"
| "test_pairs e url output_file timeout pbar total_headers tested_headers
     ((header_name, header_value) # rest) w =
     (let tested1 = (if pbar then tested_headers + 1 else tested_headers);
          w1 = (if pbar then show_progress url header_name header_value tested1 total_headers w
                else w)
      in case verify_302_poisoning e url header_name header_value timeout w1 of
           (Inl err, w2) \<Rightarrow> (Some err, w2)
         | (Inr (result, error), w2) \<Rightarrow>
             let w3 = (case result of
                         None \<Rightarrow> w2
                       | Some r \<Rightarrow> record_finding url output_file header_name header_value r w2)
             in test_pairs e url output_file timeout pbar total_headers tested1 rest
                  (sleep 0.5 w3))"

text \<open>
  \<open>mode\<close> is a parameter of the source function, as are the payload file, the output file,
  the timeout and the optional progress bar (here: whether one was passed).
\<close>

definition on_exception :: "string \<Rightarrow> bool \<Rightarrow> string \<Rightarrow> world \<Rightarrow> world" where
  "on_exception url pbar msg w =
     (let w1 = log ''ERROR'' (''Error testing '' @ url @ '': '' @ msg) w
      in if pbar then w1\<lparr>progress := progress w1 @ [Update_rest]\<rparr> else w1)"

definition test_cache_poisoning ::
  "env \<Rightarrow> string \<Rightarrow> string \<Rightarrow> string \<Rightarrow> string \<Rightarrow> int \<Rightarrow> bool \<Rightarrow> world \<Rightarrow> world" where
  "test_cache_poisoning e url payloads_file output_file mode timeout pbar w =
     (case load_payloads e payloads_file of
        Inl msg \<Rightarrow> on_exception url pbar msg w
      | Inr hs \<Rightarrow>
          let total_headers = sum_list (map (\<lambda>(header, vals). length vals) hs)
          in (case test_pairs e url output_file timeout pbar total_headers 0 (catalog_pairs hs) w of
                (None, w1) \<Rightarrow> w1
              | (Some err, w1) \<Rightarrow> on_exception url pbar (str_of_error err) w1))"

section \<open>The URL functions of the standard library\<close>

text \<open>
  \<open>urlparse\<close> and \<open>urljoin\<close> belong to Python's \<^verbatim>\<open>urllib.parse\<close>, not to the scanner. They
  are modelled after CPython 3.11: leading control characters and spaces are dropped, tab,
  carriage return and line feed are removed, then scheme, network location, fragment, query
  and parameters are split off in this order. Of the checks that raise \<^verbatim>\<open>ValueError\<close>, the
  unbalanced-bracket check of the network location is modelled; the validation of a
  bracketed host and the normalisation check of a non-ASCII network location are not.
\<close>

record url_parts =
  scheme :: string
  netloc :: string
  path :: string
  params :: string
  query :: string
  fragment :: string

definition is_ascii_alpha :: "char \<Rightarrow> bool" where
  "is_ascii_alpha c =
     (let n = of_char c :: nat in (65 \<le> n \<and> n \<le> 90) \<or> (97 \<le> n \<and> n \<le> 122))"

definition is_scheme_char :: "char \<Rightarrow> bool" where
  "is_scheme_char c =
     (let n = of_char c :: nat
      in is_ascii_alpha c \<or> (48 \<le> n \<and> n \<le> 57) \<or> c = CHR ''+'' \<or> c = CHR ''-'' \<or> c = CHR ''.'')"

definition uses_relative :: "string list" where
  "uses_relative = ['''', ''ftp'', ''http'', ''gopher'', ''nntp'', ''imap'', ''wais'', ''file'',
     ''https'', ''shttp'', ''mms'', ''prospero'', ''rtsp'', ''rtsps'', ''rtspu'', ''sftp'',
     ''svn'', ''svn+ssh'', ''ws'', ''wss'']"

definition uses_netloc :: "string list" where
  "uses_netloc = ['''', ''ftp'', ''http'', ''gopher'', ''nntp'', ''telnet'', ''imap'', ''wais'',
     ''file'', ''mms'', ''https'', ''shttp'', ''snews'', ''prospero'', ''rtsp'', ''rtsps'',
     ''rtspu'', ''rsync'', ''svn'', ''svn+ssh'', ''sftp'', ''nfs'', ''git'', ''git+ssh'',
     ''ws'', ''wss'']"

definition uses_params :: "string list" where
  "uses_params = ['''', ''ftp'', ''hdl'', ''prospero'', ''http'', ''imap'', ''https'', ''shttp'',
     ''rtsp'', ''rtsps'', ''rtspu'', ''sip'', ''sips'', ''mms'', ''sftp'', ''tel'']"

text \<open>\<open>before c s\<close> and \<open>after c s\<close>: the parts of \<open>s\<close> around the first \<open>c\<close>.\<close>

definition before :: "char \<Rightarrow> string \<Rightarrow> string" where
  "before c s = takeWhile (\<lambda>x. x \<noteq> c) s"

definition after :: "char \<Rightarrow> string \<Rightarrow> string" where
  "after c s = drop 1 (dropWhile (\<lambda>x. x \<noteq> c) s)"

definition after_last :: "char \<Rightarrow> string \<Rightarrow> string" where
  "after_last c s = rev (takeWhile (\<lambda>x. x \<noteq> c) (rev s))"

definition split_scheme :: "string \<Rightarrow> string \<Rightarrow> string \<times> string" where
  "split_scheme dflt url =
     (let pre = before CHR '':'' url
      in if CHR '':'' \<in> set url \<and> pre \<noteq> [] \<and> is_ascii_alpha (hd url) \<and> list_all is_scheme_char pre
         then (lower pre, after CHR '':'' url)
         else (dflt, url))"

definition is_netloc_delim :: "char \<Rightarrow> bool" where
  "is_netloc_delim c = (c = CHR ''/'' \<or> c = CHR ''?'' \<or> c = CHR ''#'')"

definition splitparams :: "string \<Rightarrow> string \<times> string" where
  "splitparams url =
     (let seg = after_last CHR ''/'' url
      in if CHR '';'' \<in> set seg
         then (take (length url - length seg) url @ before CHR '';'' seg, after CHR '';'' seg)
         else (url, []))"

definition urlparse :: "string \<Rightarrow> string \<Rightarrow> py_error + url_parts" where
  "urlparse dflt url0 =
     (let url1 = dropWhile (\<lambda>c. (of_char c :: nat) \<le> 32) url0;
          url2 = filter (\<lambda>c. (of_char c :: nat) \<notin> {9, 10, 13}) url1;
          (sch, url3) = split_scheme dflt url2;
          has_netloc = (take 2 url3 = ''//'');
          nl = (if has_netloc then takeWhile (\<lambda>c. \<not> is_netloc_delim c) (drop 2 url3) else []);
          url4 = (if has_netloc then dropWhile (\<lambda>c. \<not> is_netloc_delim c) (drop 2 url3) else url3)
      in if (CHR ''['' \<in> set nl) \<noteq> (CHR '']'' \<in> set nl) then Inl (ValueError ''Invalid IPv6 URL'')
         else
           let frag = after CHR ''#'' url4;
               url5 = before CHR ''#'' url4;
               qry = after CHR ''?'' url5;
               url6 = before CHR ''?'' url5;
               (pth, prm) = (if sch \<in> set uses_params \<and> CHR '';'' \<in> set url6
                             then splitparams url6 else (url6, []))
           in Inr \<lparr>scheme = sch, netloc = nl, path = pth, params = prm, query = qry,
                    fragment = frag\<rparr>)"

definition urlunparse :: "url_parts \<Rightarrow> string" where
  "urlunparse p =
     (let url0 = (if params p \<noteq> [] then path p @ '';'' @ params p else path p);
          url1 = (if netloc p \<noteq> [] \<or> (scheme p \<noteq> [] \<and> scheme p \<in> set uses_netloc)
                     \<or> take 2 url0 = ''//''
                  then ''//'' @ netloc p
                         @ (if url0 \<noteq> [] \<and> take 1 url0 \<noteq> ''/'' then ''/'' @ url0 else url0)
                  else url0);
          url2 = (if scheme p \<noteq> [] then scheme p @ '':'' @ url1 else url1);
          url3 = (if query p \<noteq> [] then url2 @ ''?'' @ query p else url2)
      in if fragment p \<noteq> [] then url3 @ ''#'' @ fragment p else url3)"

text \<open>\<^verbatim>\<open>s.split('/')\<close> and \<^verbatim>\<open>'/'.join(parts)\<close>.\<close>

fun split_on :: "char \<Rightarrow> string \<Rightarrow> string list" where
  "split_on c [] = [[]]"
| "split_on c (x # xs) =
     (if x = c then [] # split_on c xs
      else case split_on c xs of [] \<Rightarrow> [[x]] | y # ys \<Rightarrow> (x # y) # ys)"

fun join_with :: "char \<Rightarrow> string list \<Rightarrow> string" where
  "join_with c [] = []"
| "join_with c [s] = s"
| "join_with c (s # t # rest) = s @ c # join_with c (t # rest)"

text \<open>\<^verbatim>\<open>segments[1:-1] = filter(None, segments[1:-1])\<close>\<close>

definition squeeze :: "string list \<Rightarrow> string list" where
  "squeeze segs =
     (if length segs < 2 then segs
      else hd segs # filter (\<lambda>s. s \<noteq> []) (butlast (tl segs)) @ [last segs])"

fun resolve_segments :: "string list \<Rightarrow> string list \<Rightarrow> string list" where
  "resolve_segments [] resolved = resolved"
| "resolve_segments (seg # rest) resolved =
     (if seg = ''..'' then resolve_segments rest (butlast resolved)
      else if seg = ''.'' then resolve_segments rest resolved
      else resolve_segments rest (resolved @ [seg]))"

definition urljoin :: "string \<Rightarrow> string \<Rightarrow> py_error + string" where
  "urljoin base url =
     (if base = [] then Inr url
      else if url = [] then Inr base
      else
        case urlparse [] base of
          Inl err \<Rightarrow> Inl err
        | Inr b \<Rightarrow>
           (case urlparse (scheme b) url of
              Inl err \<Rightarrow> Inl err
            | Inr u \<Rightarrow>
                if scheme u \<noteq> scheme b \<or> scheme u \<notin> set uses_relative then Inr url
                else if scheme u \<in> set uses_netloc \<and> netloc u \<noteq> [] then Inr (urlunparse u)
                else
                  let nl = (if scheme u \<in> set uses_netloc then netloc b else netloc u)
                  in if path u = [] \<and> params u = []
                     then Inr (urlunparse
                            (u\<lparr>netloc := nl, path := path b, params := params b,
                               query := (if query u = [] then query b else query u)\<rparr>))
                     else
                       let base_parts0 = split_on CHR ''/'' (path b);
                           base_parts = (if last base_parts0 \<noteq> [] then butlast base_parts0
                                         else base_parts0);
                           segments = (if take 1 (path u) = ''/'' then split_on CHR ''/'' (path u)
                                       else squeeze (base_parts @ split_on CHR ''/'' (path u)));
                           resolved0 = resolve_segments segments [];
                           resolved = (if last segments = ''.'' \<or> last segments = ''..''
                                       then resolved0 @ [[]] else resolved0);
                           joined = join_with CHR ''/'' resolved
                       in Inr (urlunparse
                            (u\<lparr>netloc := nl, path := (if joined = [] then ''/'' else joined)\<rparr>))))"

text \<open>\<^verbatim>\<open>os.path.splitext(p)[1]\<close> on a POSIX path: the extension of the last component,
  from its last dot, unless only dots precede that dot.\<close>

definition splitext_ext :: "string \<Rightarrow> string" where
  "splitext_ext p =
     (let base = after_last CHR ''/'' p;
          ext = after_last CHR ''.'' base;
          stem = take (length base - length ext - 1) base
      in if CHR ''.'' \<in> set base \<and> filter (\<lambda>c. c \<noteq> CHR ''.'') stem \<noteq> []
         then CHR ''.'' # ext else [])"

section \<open>URL discovery\<close>

definition MAX_URLS :: nat where
  "MAX_URLS = 1000"

text \<open>
  The closures of \<open>discover_urls\<close>; \<open>target\<close> and \<open>target_domain\<close> are the variables they
  capture. The bare \<^verbatim>\<open>except:\<close> of each turns every exception into the fallback value.
\<close>

definition is_same_domain :: "string \<Rightarrow> string \<Rightarrow> bool" where
  "is_same_domain target_domain url =
     (case urlparse [] url of
        Inl err \<Rightarrow> False
      | Inr parsed \<Rightarrow> netloc parsed = target_domain \<or> prefix ''/'' (path parsed))"

definition rstrip_slash :: "string \<Rightarrow> string" where
  "rstrip_slash s = rev (dropWhile (\<lambda>c. c = CHR ''/'') (rev s))"

definition normalize_path :: "string \<Rightarrow> string \<Rightarrow> string" where
  "normalize_path target url =
     (case urlparse [] url of
        Inl err \<Rightarrow> url
      | Inr parsed \<Rightarrow>
          let stripped = rstrip_slash (path parsed);
              pth = (if stripped = [] then ''/'' else stripped)
          in (case urljoin target pth of Inl err \<Rightarrow> url | Inr joined \<Rightarrow> joined))"

definition common_endpoints :: "string list" where
  "common_endpoints = ['''', ''api'', ''v1'', ''v2'', ''admin'', ''portal'', ''graphql'',
     ''wp-json'', ''.well-known'', ''actuator'', ''metrics'', ''health'', ''status'',
     ''api-docs'', ''swagger'', ''openapi'', ''docs'', ''help'', ''debug'', ''internal'',
     ''private'', ''public'', ''auth'', ''login'', ''user'', ''admin'', ''dashboard'',
     ''console'', ''management'', ''monitor'', ''static'', ''assets'', ''images'', ''css'',
     ''js'', ''lib'', ''vendor'', ''includes'', ''upload'', ''uploads'', ''files'', ''temp'',
     ''cache'']"

definition excluded_extensions :: "string list" where
  "excluded_extensions = [''.jpg'', ''.jpeg'', ''.png'', ''.gif'', ''.css'', ''.js'', ''.svg'',
     ''.ico'', ''.woff'', ''.ttf'', ''.eot'']"

text \<open>
  What the crawler sees of a fetched page: its status code and \<open>page_urls\<close>, the list
  \<^verbatim>\<open>urls\<close> that the three \<^verbatim>\<open>re.findall\<close> scans of the body build (attribute references,
  quoted absolute paths, quoted API paths, in this order). The outcome of a GET may depend
  on the URLs fetched before it.
\<close>

record page =
  page_status :: int
  page_urls :: "string list"

datatype page_outcome = Page page | Page_exception

type_synonym fetcher = "string list \<Rightarrow> string \<Rightarrow> page_outcome"

text \<open>
  The set \<open>discovered_urls\<close> is kept as a list that \<open>List.insert\<close> extends. \<open>crawled\<close>
  records every GET of the crawl: the URL, the depth of the \<open>crawl_url\<close> call that issued
  it and the size of \<open>discovered_urls\<close> at that moment.
\<close>

record crawl_state =
  discovered_urls :: "string list"
  crawled :: "(string \<times> nat \<times> nat) list"

text \<open>
  \<open>crawl_url\<close> and its loop over the extracted references. \<open>urljoin\<close> is called outside
  the closures' handlers, and \<open>crawl_url\<close> catches \<^verbatim>\<open>RequestException\<close> only, so a
  \<^verbatim>\<open>ValueError\<close> from it ends the whole crawl. The progress bar is left out.
\<close>

function crawl_url ::
    "fetcher \<Rightarrow> string \<Rightarrow> string \<Rightarrow> string \<Rightarrow> nat \<Rightarrow> nat \<Rightarrow> crawl_state \<Rightarrow> py_error + crawl_state"
  and crawl_found ::
    "fetcher \<Rightarrow> string \<Rightarrow> string \<Rightarrow> string \<Rightarrow> nat \<Rightarrow> nat \<Rightarrow> string list \<Rightarrow> crawl_state
       \<Rightarrow> py_error + crawl_state"
where
  "crawl_url get target target_domain url depth max_depth st =
     (if depth \<ge> max_depth then Inr st
      else
        let st1 = st\<lparr>crawled := crawled st @ [(url, depth, card (set (discovered_urls st)))]\<rparr>
        in case get (map fst (crawled st)) url of
             Page_exception \<Rightarrow> Inr st1
           | Page response \<Rightarrow>
               if page_status response = 200
               then crawl_found get target target_domain url depth max_depth
                      (page_urls response) st1
               else Inr st1)"
| "crawl_found get target target_domain url depth max_depth [] st = Inr st"
| "crawl_found get target target_domain url depth max_depth (found_url # rest) st =
     (case (if prefix ''/'' found_url then urljoin target found_url
            else if prefix ''http://'' found_url \<or> prefix ''https://'' found_url
                 then Inr found_url
            else urljoin url found_url) of
        Inl err \<Rightarrow> Inl err
      | Inr full_url \<Rightarrow>
          if is_same_domain target_domain full_url \<and> full_url \<notin> set (discovered_urls st)
          then
            let st1 = st\<lparr>discovered_urls :=
                           List.insert (normalize_path target full_url) (discovered_urls st)\<rparr>
            in if card (set (discovered_urls st1)) < MAX_URLS \<and> depth < max_depth - 1
               then case crawl_url get target target_domain full_url (depth + 1) max_depth st1 of
                      Inl err \<Rightarrow> Inl err
                    | Inr st2 \<Rightarrow>
                        crawl_found get target target_domain url depth max_depth rest st2
               else crawl_found get target target_domain url depth max_depth rest st1
          else crawl_found get target target_domain url depth max_depth rest st)"
  by pat_completeness auto
termination
  by (relation "measures
        [\<lambda>x. case x of Inl (g, t, td, u, d, m, s) \<Rightarrow> m - d | Inr (g, t, td, u, d, m, fs, s) \<Rightarrow> m - d,
         \<lambda>x. case x of Inl _ \<Rightarrow> 1 | Inr _ \<Rightarrow> 0,
         \<lambda>x. case x of Inl _ \<Rightarrow> 0 | Inr (g, t, td, u, d, m, fs, s) \<Rightarrow> length fs]") auto

declare crawl_url.simps [simp del] crawl_found.simps [simp del]

text \<open>
  A GET recorded in \<open>crawled\<close> is a recursive expansion below the cap, relative to a call
  at \<open>depth\<close> that started with \<open>size0\<close> discovered URLs, when it was issued at a greater
  depth and at a moment when the discovered set held at least \<open>size0\<close> and fewer than
  \<open>MAX_URLS\<close> URLs.
\<close>

definition expansion_below_cap :: "nat \<Rightarrow> nat \<Rightarrow> (string \<times> nat \<times> nat) \<Rightarrow> bool" where
  "expansion_below_cap depth size0 e =
     (depth < fst (snd e) \<and> size0 \<le> snd (snd e) \<and> snd (snd e) < MAX_URLS)"

text \<open>
  The post-crawl filter. Python iterates the set in an unspecified order; the loop is
  modelled over a list, whose order stands for the iteration order.
\<close>

fun filter_urls :: "string \<Rightarrow> string list \<Rightarrow> string list \<Rightarrow> string list" where
  "filter_urls target_domain [] filtered_urls = filtered_urls"
| "filter_urls target_domain (url # rest) filtered_urls =
     (case urlparse [] url of
        Inl err \<Rightarrow> filter_urls target_domain rest filtered_urls
      | Inr parsed \<Rightarrow>
          let ext = lower (splitext_ext (path parsed))
          in if ext \<notin> set excluded_extensions \<and> is_same_domain target_domain url
                \<and> card (set filtered_urls) < MAX_URLS
             then filter_urls target_domain rest (List.insert url filtered_urls)
             else filter_urls target_domain rest filtered_urls)"

definition seed_urls :: "string \<Rightarrow> string list" where
  "seed_urls target =
     fold (\<lambda>endpoint acc. List.insert (normalize_path target (target @ ''/'' @ endpoint @ ''/'')) acc)
       common_endpoints []"

text \<open>
  \<open>discover_urls\<close>: the seeds, the crawl from the target (depth 0, maximal depth 2), the
  filter. Writing the URL file and logging are left out.
\<close>

definition discover_urls :: "fetcher \<Rightarrow> string \<Rightarrow> py_error + string list" where
  "discover_urls get target =
     (case urlparse [] target of
        Inl err \<Rightarrow> Inl err
      | Inr parsed_target \<Rightarrow>
          let target_domain = netloc parsed_target;
              st0 = \<lparr>discovered_urls = seed_urls target, crawled = []\<rparr>
          in (case crawl_url get target target_domain target 0 2 st0 of
                Inl err \<Rightarrow> Inl err
              | Inr st \<Rightarrow> Inr (filter_urls target_domain (discovered_urls st) [])))"

section \<open>Scenarios\<close>

text \<open>
  Concrete environments on which the properties below are exercised. In \<open>scenario_env\<close> the
  server answers 200 unless the request carries \<open>X-Forwarded-Host\<close>, and then redirects to
  that host; every attempt gets the same three tokens. \<open>unstable_env\<close> redirects to a
  Location that differs from probe to probe, \<open>redirecting_env\<close> redirects every request to
  \<open>evil.com\<close>, and in \<open>failing_env\<close> every request raises.
\<close>

definition scenario_env :: env where
  "scenario_env =
     \<lparr>http_get = (\<lambda>history rq.
        case map_of (rq_headers rq) ''X-Forwarded-Host'' of
          None \<Rightarrow> Response \<lparr>status_code = 200, headers = [], resp_text = ''ok''\<rparr>
        | Some v \<Rightarrow>
            Response \<lparr>status_code = 302,
                      headers = [(''Location'', ''https://'' @ v @ ''/dashboard'')],
                      resp_text = []\<rparr>),
      cache_busters = (\<lambda>history. (''verify_1_0_aa'', ''verify_1_1_bb'', ''verify_1_2_cc'')),
      load_payloads = (\<lambda>file. Inr [(''X-Forwarded-Host'', [''evil.com''])])\<rparr>"

definition unstable_env :: env where
  "unstable_env =
     \<lparr>http_get = (\<lambda>history rq.
        case map_of (rq_headers rq) ''X-Forwarded-Host'' of
          None \<Rightarrow> Response \<lparr>status_code = 200, headers = [], resp_text = ''ok''\<rparr>
        | Some v \<Rightarrow>
            Response \<lparr>status_code = 302,
                      headers = [(''Location'', ''https://'' @ v @ ''/'' @ [last (rq_url rq)])],
                      resp_text = []\<rparr>),
      cache_busters = (\<lambda>history. (''verify_1_0_aa'', ''verify_1_1_bb'', ''verify_1_2_cc'')),
      load_payloads = (\<lambda>file. Inr [(''X-Forwarded-Host'', [''evil.com''])])\<rparr>"

definition redirecting_env :: env where
  "redirecting_env =
     \<lparr>http_get = (\<lambda>history rq.
        Response \<lparr>status_code = 302, headers = [(''location'', ''https://EVIL.com/'')],
                  resp_text = []\<rparr>),
      cache_busters = (\<lambda>history. (''verify_1_0_aa'', ''verify_1_1_bb'', ''verify_1_2_cc'')),
      load_payloads = (\<lambda>file. Inr [(''X-Forwarded-Host'', [''evil.com''])])\<rparr>"

definition failing_env :: env where
  "failing_env =
     \<lparr>http_get = (\<lambda>history rq. RequestException ''timed out''),
      cache_busters = (\<lambda>history. (''verify_1_0_aa'', ''verify_1_1_bb'', ''verify_1_2_cc'')),
      load_payloads = (\<lambda>file. Inr [(''X-Forwarded-Host'', [''evil.com''])])\<rparr>"

definition world0 :: world where
  "world0 = \<lparr>sent = [], slept = [], appended = [], console = [], progress = []\<rparr>"

text \<open>The probe success recorded for the token \<open>cb\<close> when the Location is \<open>loc\<close>.\<close>

definition scenario_finding :: "string \<Rightarrow> string \<Rightarrow> finding" where
  "scenario_finding cb loc =
     \<lparr>f_url = ''https://example.com?'' @ cb, f_status_code = 302, f_location = loc,
      f_reflection = \<lparr>is_reflected = False, location_reflection = True,
                      reflection_context = Some (''Location: '' @ loc)\<rparr>,
      f_headers = [(''Location'', loc)]\<rparr>"

text \<open>
  Crawl scenarios for the target \<open>https://example.com\<close>. \<open>seeded\<close> is the state in which
  \<open>discover_urls\<close> starts the crawl. The root page links to an out-of-domain URL
  (\<open>evil_link_fetch\<close>), to a URL of the target whose path begins with two slashes
  (\<open>double_slash_fetch\<close>), or to the 1001 distinct URLs \<open>link 0\<close>, ..., \<open>link 1000\<close> of
  the target (\<open>many_links_fetch\<close>); every other GET raises. \<open>at_cap\<close> is a state whose
  discovered set holds exactly \<open>MAX_URLS\<close> URLs. \<open>plain\<close> characters are those of which
  the path segments of these scenarios consist, and \<open>discovered_of\<close> reads the discovered
  set off the result of a crawl.
\<close>

definition plain :: "char \<Rightarrow> bool" where
  "plain c = (c \<in> set ''abcdefghijklmnopqrstuvwxyz0123456789-.'')"

definition seeded :: crawl_state where
  "seeded = \<lparr>discovered_urls = seed_urls ''https://example.com'', crawled = []\<rparr>"

definition evil_link_fetch :: fetcher where
  "evil_link_fetch history url =
     (if url = ''https://example.com''
      then Page \<lparr>page_status = 200, page_urls = [''https://evil.com/a'']\<rparr>
      else Page_exception)"

definition double_slash_fetch :: fetcher where
  "double_slash_fetch history url =
     (if url = ''https://example.com''
      then Page \<lparr>page_status = 200, page_urls = [''https://example.com//evil.com/x'']\<rparr>
      else Page_exception)"

definition link :: "nat \<Rightarrow> string" where
  "link i = ''https://example.com/'' @ replicate (Suc i) CHR ''a''"

definition many_links_fetch :: fetcher where
  "many_links_fetch history url =
     (if url = ''https://example.com''
      then Page \<lparr>page_status = 200, page_urls = map link [0..<1001]\<rparr>
      else Page_exception)"

definition at_cap :: crawl_state where
  "at_cap = \<lparr>discovered_urls = map link [0..<1000], crawled = []\<rparr>"

definition discovered_of :: "py_error + crawl_state \<Rightarrow> string list" where
  "discovered_of r = (case r of Inl err \<Rightarrow> [] | Inr st \<Rightarrow> discovered_urls st)"

section \<open>Properties of target normalisation\<close>

lemma rstrip_last: "rstrip s \<noteq> [] \<Longrightarrow> \<not> is_space (last (rstrip s))"
  unfolding rstrip_def
  using hd_dropWhile [of is_space "rev s"] by (simp add: last_rev)

lemma rstrip_id: "s \<noteq> [] \<Longrightarrow> \<not> is_space (last s) \<Longrightarrow> rstrip s = s"
  unfolding rstrip_def by (cases "rev s") (auto simp: last_rev hd_rev [symmetric])

lemma strip_scheme_last:
  "strip_scheme s \<noteq> [] \<Longrightarrow> last (strip_scheme s) = last s"
  unfolding strip_scheme_def by (auto split: if_splits)

lemma lstrip_https: "lstrip (''https://'' @ u) = ''https://'' @ u"
  by (simp add: lstrip_def is_space_def)

lemma last_strip_scheme_strip:
  "\<not> is_space (last (''https://'' @ strip_scheme (strip t)))"
proof (cases "strip_scheme (strip t) = []")
  case True
  then show ?thesis by (simp add: is_space_def)
next
  case False
  then have ne: "strip t \<noteq> []"
    by (auto simp: strip_scheme_def)
  from False have "last (strip_scheme (strip t)) = last (strip t)"
    by (rule strip_scheme_last)
  moreover from ne have "\<not> is_space (last (strip t))"
    unfolding strip_def by (rule rstrip_last)
  ultimately show ?thesis using False by simp
qed

lemma strip_scheme_https: "strip_scheme (''https://'' @ u) = u"
  by (simp add: strip_scheme_def)

text \<open>
  C8. \<open>normalize_url\<close> is idempotent, and its result always starts with the
  \<open>https://\<close> scheme prefix.
\<close>

theorem normalize_url_idempotent_https:
  "normalize_url (normalize_url t) = normalize_url t \<and> prefix ''https://'' (normalize_url t)"
proof -
  let ?u = "strip_scheme (strip t)"
  have "rstrip (''https://'' @ ?u) = ''https://'' @ ?u"
    by (rule rstrip_id) (simp, rule last_strip_scheme_strip)
  then have "strip (''https://'' @ ?u) = ''https://'' @ ?u"
    by (simp only: strip_def lstrip_https)
  then have "normalize_url (normalize_url t) = normalize_url t"
    by (simp only: normalize_url_def strip_scheme_https)
  moreover have "prefix ''https://'' (normalize_url t)"
    by (simp add: normalize_url_def)
  ultimately show ?thesis by simp
qed

text \<open>The theorem at the input \<open>" http://example.com/ "\<close>, whose normal form is computed.\<close>

theorem normalize_url_idempotent_https_witness:
  "normalize_url '' http://example.com/ '' = ''https://example.com/''
   \<and> normalize_url (normalize_url '' http://example.com/ '') = ''https://example.com/''
   \<and> prefix ''https://'' (normalize_url '' http://example.com/ '')"
proof -
  have v: "normalize_url '' http://example.com/ '' = ''https://example.com/''"
    by (simp add: normalize_url_def strip_def lstrip_def rstrip_def is_space_def strip_scheme_def)
  from normalize_url_idempotent_https [of "'' http://example.com/ ''"] v
  show ?thesis by simp
qed

section \<open>Properties of reflection detection\<close>

lemma str_in_sublist: "str_in n h = sublist n h"
  by (induction h) (auto simp: sublist_Cons_right)

lemma ci_all2_map: "list_all2 ci_eq p mid \<longleftrightarrow> lower p = lower mid"
  by (simp add: lower_def ci_eq_def [abs_def] list_all2_eq [of "map lower_char p"]
        list_all2_map1 list_all2_map2)

text \<open>
  The test the code performs, \<^verbatim>\<open>payload.lower() in location.lower()\<close>, decides the
  specification's case-insensitive substring relation.
\<close>

lemma str_in_lower_ci: "str_in (lower p) (lower l) \<longleftrightarrow> ci_substring p l"
proof
  assume "str_in (lower p) (lower l)"
  then obtain ps ss where "map lower_char l = ps @ map lower_char p @ ss"
    by (auto simp: str_in_sublist sublist_def lower_def)
  then have "\<exists>pre mid suf. l = pre @ mid @ suf \<and> map lower_char p = map lower_char mid"
    by (metis map_eq_append_conv)
  then show "ci_substring p l"
    unfolding ci_substring_def by (simp add: ci_all2_map lower_def)
next
  assume "ci_substring p l"
  then obtain pre mid suf where "l = pre @ mid @ suf" and "lower p = lower mid"
    by (auto simp: ci_substring_def ci_all2_map)
  then have "lower l = lower pre @ lower p @ lower suf"
    by (simp add: lower_def)
  then show "str_in (lower p) (lower l)"
    by (simp add: str_in_sublist)
qed

lemma ci_substring_Nil_right: "ci_substring p [] \<longleftrightarrow> p = []"
  by (auto simp: ci_substring_def)

text \<open>
  C6, as stated, at the empty injected value: the empty string is a (case-insensitive)
  substring of the Location header \<open>https://example.com/\<close>, yet the guard on a falsy payload
  returns \<^verbatim>\<open>(False, None)\<close> and no reflection is reported.
\<close>

theorem reflection_empty_payload_counterexample:
  "\<not> (reports_location_reflection
         (validate_response_reflection ''body'' [] (Some ''https://example.com/''))
       \<longleftrightarrow> ci_substring [] ''https://example.com/'')"
proof -
  have "ci_substring [] ''https://example.com/''"
    unfolding ci_substring_def by (rule exI [of _ "[]"]) simp
  moreover have "\<not> reports_location_reflection
         (validate_response_reflection ''body'' [] (Some ''https://example.com/''))"
    by (simp add: validate_response_reflection_def reports_location_reflection_def)
  ultimately show ?thesis by simp
qed

text \<open>
  C6, amended. For a non-empty injected value, a Location reflection is reported exactly
  when a Location header is given and the injected value is a case-insensitive substring of
  it. No reflection is reported when the Location header is absent or empty, and none when
  the injected value is empty.
\<close>

theorem reflection_detection:
  "(payload_value \<noteq> [] \<longrightarrow>
      (reports_location_reflection (validate_response_reflection response_text payload_value loc)
         \<longleftrightarrow> (\<exists>l. loc = Some l \<and> ci_substring payload_value l)))
   \<and> (loc = None \<or> loc = Some [] \<longrightarrow>
        \<not> reports_location_reflection (validate_response_reflection response_text payload_value loc))
   \<and> (payload_value = [] \<longrightarrow>
        \<not> reports_location_reflection (validate_response_reflection response_text payload_value loc))"
  by (cases loc)
    (auto simp: validate_response_reflection_def reports_location_reflection_def Let_def
       str_in_lower_ci ci_substring_Nil_right)

text \<open>
  The amended C6 at the value \<open>Evil.com\<close>: reflected in \<open>https://EVIL.com/x\<close>, not
  reflected without a Location header, and nothing reported for the empty value.
\<close>

theorem reflection_detection_witness:
  "reports_location_reflection
     (validate_response_reflection ''body'' ''Evil.com'' (Some ''https://EVIL.com/x''))
   \<and> ci_substring ''Evil.com'' ''https://EVIL.com/x''
   \<and> \<not> reports_location_reflection (validate_response_reflection ''body'' ''Evil.com'' None)
   \<and> \<not> reports_location_reflection (validate_response_reflection ''body'' [] (Some ''https://EVIL.com/x''))"
proof -
  have r: "reports_location_reflection
     (validate_response_reflection ''body'' ''Evil.com'' (Some ''https://EVIL.com/x''))"
    by code_simp
  from reflection_detection [of "''Evil.com''" "''body''" "Some ''https://EVIL.com/x''"] r
  have c: "ci_substring ''Evil.com'' ''https://EVIL.com/x''" by simp
  from reflection_detection [of "''Evil.com''" "''body''" None]
  have n: "\<not> reports_location_reflection (validate_response_reflection ''body'' ''Evil.com'' None)"
    by simp
  from reflection_detection [of "[]" "''body''" "Some ''https://EVIL.com/x''"]
  have e: "\<not> reports_location_reflection
             (validate_response_reflection ''body'' [] (Some ''https://EVIL.com/x''))"
    by simp
  from r c n e show ?thesis by simp
qed

section \<open>Properties of response comparison\<close>

text \<open>
  For every non-empty payload value \<open>validate_response_reflection\<close> returns its dictionary,
  and the two-target unpacking in \<open>compare_responses\<close> raises.
\<close>

lemma compare_responses_raises:
  "payload_value \<noteq> [] \<Longrightarrow>
   compare_responses ratio baseline test_response payload_value threshold
     = Inl (ValueError ''too many values to unpack (expected 2)'')"
  by (simp add: compare_responses_def validate_response_reflection_def unpack2_def Let_def)

text \<open>
  For the empty payload value the comparison of a response with itself does return "not
  different" with similarity 1, provided the library's ratio of a text with itself is 1.
\<close>

lemma compare_responses_self_empty_payload:
  "ratio (take 1000 (pr_content r)) (take 1000 (pr_content r)) = 1 \<Longrightarrow>
   compare_responses ratio r r [] threshold
     = Inr (False, \<lparr>status_changed = False, length_changed = False, content_changed = False,
                    headers_changed = False, reflection_found = False, similarity_score = 1\<rparr>)"
  by (simp add: compare_responses_def validate_response_reflection_def unpack2_def Let_def)

text \<open>
  C1. Comparing a response with itself should give "not different" and similarity 1.0 for
  every payload value. With the payload value \<open>evil.com\<close> the code does not return at all:
  whatever the response, the similarity function and the threshold, it raises
  \<^verbatim>\<open>ValueError\<close>.
\<close>

theorem compare_responses_self_raises:
  "compare_responses ratio r r ''evil.com'' threshold
     = Inl (ValueError ''too many values to unpack (expected 2)'')"
  by (simp add: compare_responses_def validate_response_reflection_def unpack2_def Let_def)

text \<open>The same at a concrete response: status 200, empty body, no headers.\<close>

theorem compare_responses_self_raises_witness:
  "compare_responses (\<lambda>a b. 1)
     \<lparr>pr_status = 200, pr_length = 0, pr_headers = Map.empty, pr_content = []\<rparr>
     \<lparr>pr_status = 200, pr_length = 0, pr_headers = Map.empty, pr_content = []\<rparr>
     ''evil.com'' 0.85
   = Inl (ValueError ''too many values to unpack (expected 2)'')"
  by (rule compare_responses_self_raises)

section \<open>Properties of the 302 verification protocol\<close>

lemma validate_reflected:
  "validate_response_reflection t hv (Some loc) = Details d \<Longrightarrow> location_reflection d \<Longrightarrow>
   ci_substring hv loc"
  by (auto simp: validate_response_reflection_def Let_def str_in_lower_ci split: if_splits)

lemma probe_loop_results:
  "probe_loop e url hn hv t cbs results w = (Inr rs, w') \<Longrightarrow>
   \<forall>f\<in>set results. f_status_code f = 302 \<and> ci_substring hv (f_location f) \<Longrightarrow>
   \<forall>f\<in>set rs. f_status_code f = 302 \<and> ci_substring hv (f_location f)"
proof (induction cbs arbitrary: results w)
  case Nil
  then show ?case by simp
next
  case (Cons cb rest)
  show ?case
  proof (cases "http_get e (sent w) (probe_request (url @ ''?'' @ cb) hn hv t)")
    case (RequestException msg)
    with Cons.prems(1) Cons.IH [OF _ Cons.prems(2)] show ?thesis
      by (simp add: requests_get_def)
  next
    case (Response r)
    show ?thesis
    proof (cases "status_code r = 302")
      case False
      with Response Cons.prems(1) Cons.IH [OF _ Cons.prems(2)] show ?thesis
        by (simp add: requests_get_def)
    next
      case True
      show ?thesis
      proof (cases "validate_response_reflection (resp_text r) hv
                      (Some (header_get (headers r) ''Location'' ''''))")
        case Tuple_False_None
        with True Response Cons.prems(1) show ?thesis
          by (simp add: requests_get_def)
      next
        case (Details d)
        show ?thesis
        proof (cases "location_reflection d")
          case False
          with Details True Response Cons.prems(1) Cons.IH [OF _ Cons.prems(2)] show ?thesis
            by (simp add: requests_get_def)
        next
          case yes: True
          let ?f = "\<lparr>f_url = url @ ''?'' @ cb, f_status_code = status_code r,
                      f_location = header_get (headers r) ''Location'' '''', f_reflection = d,
                      f_headers = headers r\<rparr>"
          from validate_reflected [OF Details yes] True Cons.prems(2)
          have inv: "\<forall>f\<in>set (results @ [?f]). f_status_code f = 302 \<and> ci_substring hv (f_location f)"
            by simp
          from yes Details True Response Cons.prems(1)
          have "probe_loop e url hn hv t rest (results @ [?f])
                  (sleep 1 (w\<lparr>sent := sent w @ [probe_request (url @ ''?'' @ cb) hn hv t]\<rparr>))
                = (Inr rs, w')"
            by (simp add: requests_get_def Let_def)
          from Cons.IH [OF this inv] show ?thesis .
        qed
      qed
    qed
  qed
qed

lemma probe_loop_sent:
  "prefix (sent w) (sent (snd (probe_loop e url hn hv t cbs results w)))"
proof (induction cbs arbitrary: results w)
  case Nil
  then show ?case by simp
next
  case (Cons cb rest)
  let ?rq = "probe_request (url @ ''?'' @ cb) hn hv t"
  let ?w1 = "w\<lparr>sent := sent w @ [?rq]\<rparr>"
  have a: "prefix (sent w) (sent (snd (probe_loop e url hn hv t rest res ?w1)))" for res
    using Cons.IH [where results = res and w = ?w1] by (auto dest: append_prefixD)
  have b: "prefix (sent w) (sent (snd (probe_loop e url hn hv t rest res (sleep 1 ?w1))))" for res
    using Cons.IH [where results = res and w = "sleep 1 ?w1"]
    by (auto simp: sleep_def dest: append_prefixD)
  show ?case
  proof (cases "http_get e (sent w) ?rq")
    case (RequestException msg)
    then show ?thesis using a by (simp add: requests_get_def)
  next
    case (Response r)
    then show ?thesis using a b
      by (cases "validate_response_reflection (resp_text r) hv
                   (Some (header_get (headers r) ''Location'' ''''))")
         (simp_all add: requests_get_def Let_def)
  qed
qed

lemma probe_loop_first:
  "prefix (sent w @ [probe_request (url @ ''?'' @ cb) hn hv t])
     (sent (snd (probe_loop e url hn hv t (cb # rest) results w)))"
proof -
  let ?rq = "probe_request (url @ ''?'' @ cb) hn hv t"
  let ?w1 = "w\<lparr>sent := sent w @ [?rq]\<rparr>"
  have a: "prefix (sent w @ [?rq]) (sent (snd (probe_loop e url hn hv t rest res ?w1)))" for res
    using probe_loop_sent [where w = ?w1 and cbs = rest and results = res] by simp
  have b: "prefix (sent w @ [?rq])
             (sent (snd (probe_loop e url hn hv t rest res (sleep 1 ?w1))))" for res
    using probe_loop_sent [where w = "sleep 1 ?w1" and cbs = rest and results = res]
    by (simp add: sleep_def)
  show ?thesis
  proof (cases "http_get e (sent w) ?rq")
    case (RequestException msg)
    then show ?thesis using a by (simp add: requests_get_def)
  next
    case (Response r)
    then show ?thesis using a b
      by (cases "validate_response_reflection (resp_text r) hv
                   (Some (header_get (headers r) ''Location'' ''''))")
         (simp_all add: requests_get_def Let_def)
  qed
qed

lemma card_locations_one:
  "results \<noteq> [] \<Longrightarrow>
   card (set (map g results)) = 1 \<longleftrightarrow> (\<forall>r\<in>set results. g r = g (results ! 0))"
proof
  assume ne: "results \<noteq> []" and "card (set (map g results)) = 1"
  then obtain l where l: "set (map g results) = {l}"
    by (auto simp: card_1_singleton_iff)
  then have "\<forall>r\<in>set results. g r = l" by auto
  moreover from ne have "results ! 0 \<in> set results" by (cases results) auto
  ultimately show "\<forall>r\<in>set results. g r = g (results ! 0)" by metis
next
  assume ne: "results \<noteq> []" and all: "\<forall>r\<in>set results. g r = g (results ! 0)"
  from ne obtain x xs where x: "results = x # xs" by (cases results) auto
  with all have "\<forall>r\<in>set xs. g r = g x" by simp
  then have s: "set (map g (x # xs)) = {g x}" by auto
  have "card (set (map g results)) = card {g x}" by (simp only: x s)
  then show "card (set (map g results)) = 1" by simp
qed

lemma verify_unfold:
  "verify_302_poisoning e url hn hv t w =
     (let rq = baseline_of e url t w;
          w1 = w\<lparr>sent := sent w @ [rq]\<rparr>
      in case http_get e (sent w) rq of
           RequestException msg \<Rightarrow> (Inr (None, Some (''Error during verification: '' @ msg)), w1)
         | Response b \<Rightarrow>
             if status_code b = 302 \<and> ci_substring hv (header_get (headers b) ''Location'' '''')
             then (Inr (None, Some ''Baseline already contains payload in redirect''), w1)
             else
               case probe_loop e url hn hv t
                      [fst (snd (cache_busters e (sent w))), snd (snd (cache_busters e (sent w)))]
                      [] w1 of
                 (Inl err, w2) \<Rightarrow> (Inl err, w2)
               | (Inr results, w2) \<Rightarrow>
                   if length results \<ge> 2 \<and> card (set (map f_location results)) = 1
                   then (Inr (Some (results ! 0), None), w2)
                   else (Inr (None, Some ''Inconsistent or insufficient 302 responses''), w2))"
  by (simp add: verify_302_poisoning_def baseline_of_def requests_get_def Let_def split_beta
        str_in_lower_ci split: http_outcome.split)

lemma recorded_probes_unfold:
  "recorded_probes e url hn hv t w =
     (let rq = baseline_of e url t w;
          w1 = w\<lparr>sent := sent w @ [rq]\<rparr>
      in case http_get e (sent w) rq of
           RequestException msg \<Rightarrow> None
         | Response b \<Rightarrow>
             if status_code b = 302 \<and> ci_substring hv (header_get (headers b) ''Location'' '''')
             then None
             else
               case fst (probe_loop e url hn hv t
                      [fst (snd (cache_busters e (sent w))), snd (snd (cache_busters e (sent w)))]
                      [] w1) of
                 Inl err \<Rightarrow> None
               | Inr results \<Rightarrow> Some results)"
  by (simp add: recorded_probes_def baseline_of_def requests_get_def Let_def split_beta
        str_in_lower_ci split: http_outcome.split)

text \<open>
  The decision rule. When the probing loop of an attempt ends with the recorded probe
  successes \<open>results\<close>, the attempt returns the first recorded probe as its finding if at
  least two successes were recorded and all recorded Location values are identical, and
  otherwise returns no finding with the reason "Inconsistent or insufficient 302 responses".
  Conversely a finding is returned only in the first case (and then without a reason).
\<close>

lemma decision_rule:
  "(recorded_probes e url hn hv t w = Some results \<longrightarrow>
      fst (verify_302_poisoning e url hn hv t w) =
        Inr (if 2 \<le> length results \<and> (\<forall>r\<in>set results. f_location r = f_location (results ! 0))
             then (Some (results ! 0), None)
             else (None, Some ''Inconsistent or insufficient 302 responses'')))
   \<and> (fst (verify_302_poisoning e url hn hv t w) = Inr (Some f, reason) \<longrightarrow>
        (\<exists>rs. recorded_probes e url hn hv t w = Some rs \<and> 2 \<le> length rs
              \<and> (\<forall>r\<in>set rs. f_location r = f_location (rs ! 0)) \<and> f = rs ! 0 \<and> reason = None))"
proof -
  let ?w1 = "w\<lparr>sent := sent w @ [baseline_of e url t w]\<rparr>"
  let ?P = "probe_loop e url hn hv t
              [fst (snd (cache_busters e (sent w))), snd (snd (cache_busters e (sent w)))] [] ?w1"
  obtain x w2 where P: "?P = (x, w2)" by (cases ?P)
  show ?thesis
  proof (cases "http_get e (sent w) (baseline_of e url t w)")
    case (RequestException msg)
    then show ?thesis by (simp add: verify_unfold recorded_probes_unfold Let_def)
  next
    case (Response b)
    show ?thesis
    proof (cases "status_code b = 302 \<and> ci_substring hv (header_get (headers b) ''Location'' '''')")
      case True
      with Response show ?thesis by (simp add: verify_unfold recorded_probes_unfold Let_def)
    next
      case False
      show ?thesis
      proof (cases x)
        case (Inl err)
        with P False Response show ?thesis
          by (auto simp add: verify_unfold recorded_probes_unfold Let_def simp del: probe_loop.simps)
      next
        case (Inr rs)
        with P False Response have rp: "recorded_probes e url hn hv t w = Some rs"
          by (auto simp add: recorded_probes_unfold Let_def simp del: probe_loop.simps)
        from Inr P False Response
        have v: "fst (verify_302_poisoning e url hn hv t w) =
                   Inr (if 2 \<le> length rs \<and> card (set (map f_location rs)) = 1
                        then (Some (rs ! 0), None)
                        else (None, Some ''Inconsistent or insufficient 302 responses''))"
          by (auto simp add: verify_unfold Let_def simp del: probe_loop.simps)
        have c: "2 \<le> length rs \<Longrightarrow>
           card (set (map f_location rs)) = 1
             \<longleftrightarrow> (\<forall>r\<in>set rs. f_location r = f_location (rs ! 0))"
          by (rule card_locations_one) auto
        show ?thesis
        proof (cases "2 \<le> length rs \<and> card (set (map f_location rs)) = 1")
          case True
          with c have "\<forall>r\<in>set rs. f_location r = f_location (rs ! 0)" by blast
          with True show ?thesis unfolding rp v by auto
        next
          case False
          with c have "\<not> (2 \<le> length rs \<and> (\<forall>r\<in>set rs. f_location r = f_location (rs ! 0)))"
            by blast
          with False show ?thesis unfolding rp v by auto
        qed
      qed
    qed
  qed
qed

text \<open>
  For a non-empty header value \<open>validate_response_reflection\<close> returns its dictionary at
  every probe, so the probing loop always ends with its list of recorded successes and the
  attempt always returns a pair.
\<close>

lemma probe_loop_completes:
  "hv \<noteq> [] \<Longrightarrow> \<exists>rs. fst (probe_loop e url hn hv t cbs results w) = Inr rs"
proof (induction cbs arbitrary: results w)
  case Nil
  then show ?case by simp
next
  case (Cons cb rest)
  let ?rq = "probe_request (url @ ''?'' @ cb) hn hv t"
  let ?w1 = "w\<lparr>sent := sent w @ [?rq]\<rparr>"
  show ?case
  proof (cases "http_get e (sent w) ?rq")
    case (RequestException msg)
    with Cons.IH [OF Cons.prems, of results ?w1] show ?thesis
      by (simp add: requests_get_def)
  next
    case (Response r)
    let ?loc = "header_get (headers r) ''Location'' ''''"
    from Cons.prems
    have "\<exists>d. validate_response_reflection (resp_text r) hv (Some ?loc) = Details d"
      by (simp add: validate_response_reflection_def Let_def)
    then obtain d where d: "validate_response_reflection (resp_text r) hv (Some ?loc) = Details d"
      by blast
    let ?f = "\<lparr>f_url = url @ ''?'' @ cb, f_status_code = status_code r, f_location = ?loc,
               f_reflection = d, f_headers = headers r\<rparr>"
    from Cons.IH [OF Cons.prems, of results "sleep 1 ?w1"]
      Cons.IH [OF Cons.prems, of "results @ [?f]" "sleep 1 ?w1"]
    show ?thesis
      using Response d by (cases "status_code r = 302") (simp_all add: requests_get_def Let_def)
  qed
qed

lemma recorded_probes_complete:
  assumes hv: "hv \<noteq> []"
  shows "recorded_probes e url hn hv t w = None \<longleftrightarrow>
     (case http_get e (sent w) (baseline_of e url t w) of
        RequestException msg \<Rightarrow> True
      | Response b \<Rightarrow> status_code b = 302
                      \<and> ci_substring hv (header_get (headers b) ''Location'' ''''))"
proof -
  let ?w1 = "w\<lparr>sent := sent w @ [baseline_of e url t w]\<rparr>"
  from probe_loop_completes [OF hv]
  obtain rs where "fst (probe_loop e url hn hv t
      [fst (snd (cache_busters e (sent w))), snd (snd (cache_busters e (sent w)))] [] ?w1) = Inr rs"
    by blast
  then show ?thesis
    by (simp add: recorded_probes_unfold Let_def del: probe_loop.simps split: http_outcome.split)
qed

lemma verification_returns:
  assumes hv: "hv \<noteq> []"
  shows "\<exists>res. fst (verify_302_poisoning e url hn hv t w) = Inr res"
proof -
  let ?w1 = "w\<lparr>sent := sent w @ [baseline_of e url t w]\<rparr>"
  let ?P = "probe_loop e url hn hv t
      [fst (snd (cache_busters e (sent w))), snd (snd (cache_busters e (sent w)))] [] ?w1"
  from probe_loop_completes [OF hv]
  obtain rs where "fst ?P = Inr rs" by blast
  then obtain w2 where "?P = (Inr rs, w2)" by (cases ?P) simp
  then show ?thesis
    by (simp add: verify_unfold Let_def del: probe_loop.simps split: http_outcome.split)
qed

text \<open>
  C4. Every probing outcome other than two or more recorded successes with identical
  Locations should end in the rejection "Inconsistent or insufficient 302 responses". With
  the empty header value the code does not: when the baseline response is not a 302 and the
  first probe is answered by a 302, the attempt returns neither a finding nor a rejection.
  Subscripting the tuple that \<open>validate_response_reflection\<close> returns for the empty value
  raises \<^verbatim>\<open>TypeError\<close> right after the first probe request, and no handler of
  \<open>verify_302_poisoning\<close> catches it.
\<close>

theorem verification_raises_on_empty_value:
  assumes "http_get e (sent w) (baseline_of e url t w) = Response b"
    and "status_code b \<noteq> 302"
    and "http_get e (sent w @ [baseline_of e url t w]) (first_probe_of e url hn [] t w)
           = Response r"
    and "status_code r = 302"
  shows "verify_302_poisoning e url hn [] t w =
           (Inl (TypeError ''tuple indices must be integers or slices, not str''),
            w\<lparr>sent := sent w @ [baseline_of e url t w, first_probe_of e url hn [] t w]\<rparr>)"
  using assms
  by (simp add: verify_unfold Let_def first_probe_of_def requests_get_def
        validate_response_reflection_def)

text \<open>
  C10. Whenever \<open>verify_302_poisoning\<close> returns a finding, the finding's status code is
  302 and the injected header value is a case-insensitive substring of its Location.
\<close>

theorem verified_finding_reflects:
  "fst (verify_302_poisoning e url hn hv t w) = Inr (Some f, reason) \<Longrightarrow>
   f_status_code f = 302 \<and> ci_substring hv (f_location f)"
proof -
  assume a: "fst (verify_302_poisoning e url hn hv t w) = Inr (Some f, reason)"
  let ?w1 = "w\<lparr>sent := sent w @ [baseline_of e url t w]\<rparr>"
  let ?P = "probe_loop e url hn hv t
              [fst (snd (cache_busters e (sent w))), snd (snd (cache_busters e (sent w)))] [] ?w1"
  obtain x w2 where P: "?P = (x, w2)" by (cases ?P)
  from a P obtain rs where x: "x = Inr rs" and len: "2 \<le> length rs" and f: "f = rs ! 0"
    by (auto simp: verify_unfold Let_def simp del: probe_loop.simps
          split: http_outcome.splits if_splits sum.splits)
  from P x have "?P = (Inr rs, w2)" by simp
  from probe_loop_results [OF this]
  have "\<forall>f\<in>set rs. f_status_code f = 302 \<and> ci_substring hv (f_location f)" by simp
  moreover from len f have "f \<in> set rs" by (auto intro: nth_mem)
  ultimately show ?thesis by blast
qed

text \<open>
  C7. An attempt ends at the baseline stage in exactly two cases, and in both it returns no
  finding, with the baseline request as the only request issued: when the baseline fetch
  raises a transport error, and when the baseline response is a 302 whose Location contains
  the header value case-insensitively. In every other case the first probe request follows
  the baseline request.
\<close>

theorem baseline_rejection:
  "(case http_get e (sent w) (baseline_of e url t w) of
      RequestException msg \<Rightarrow>
        verify_302_poisoning e url hn hv t w =
          (Inr (None, Some (''Error during verification: '' @ msg)),
           w\<lparr>sent := sent w @ [baseline_of e url t w]\<rparr>)
    | Response b \<Rightarrow>
        if status_code b = 302 \<and> ci_substring hv (header_get (headers b) ''Location'' '''')
        then verify_302_poisoning e url hn hv t w =
               (Inr (None, Some ''Baseline already contains payload in redirect''),
                w\<lparr>sent := sent w @ [baseline_of e url t w]\<rparr>)
        else prefix (sent w @ [baseline_of e url t w, first_probe_of e url hn hv t w])
               (sent (snd (verify_302_poisoning e url hn hv t w))))"
proof (cases "http_get e (sent w) (baseline_of e url t w)")
  case (RequestException msg)
  then show ?thesis by (simp add: verify_unfold Let_def)
next
  case (Response b)
  show ?thesis
  proof (cases "status_code b = 302 \<and> ci_substring hv (header_get (headers b) ''Location'' '''')")
    case True
    with Response show ?thesis by (simp add: verify_unfold Let_def)
  next
    case False
    let ?w1 = "w\<lparr>sent := sent w @ [baseline_of e url t w]\<rparr>"
    let ?cb1 = "fst (snd (cache_busters e (sent w)))"
    let ?P = "probe_loop e url hn hv t [?cb1, snd (snd (cache_busters e (sent w)))] [] ?w1"
    obtain x w2 where P: "?P = (x, w2)" by (cases ?P)
    from probe_loop_first [where w = ?w1 and cb = ?cb1 and e = e and url = url and hn = hn
        and hv = hv and t = t and rest = "[snd (snd (cache_busters e (sent w)))]" and results = "[]"]
    have "prefix (sent w @ [baseline_of e url t w, first_probe_of e url hn hv t w]) (sent w2)"
      unfolding P by (simp add: first_probe_of_def)
    moreover from P False Response have "sent (snd (verify_302_poisoning e url hn hv t w)) = sent w2"
      by (auto simp add: verify_unfold Let_def simp del: probe_loop.simps split: sum.splits)
    ultimately show ?thesis using False Response by auto
  qed
qed

text \<open>
  C4 at a concrete attempt: the header \<open>X-Forwarded-Host\<close> with the empty value, against a
  server that answers 200 to the baseline request and redirects every request carrying the
  header. The attempt raises after two requests.
\<close>

theorem verification_raises_on_empty_value_witness:
  "verify_302_poisoning scenario_env ''https://example.com'' ''X-Forwarded-Host'' '''' 10 world0 =
     (Inl (TypeError ''tuple indices must be integers or slices, not str''),
      world0\<lparr>sent := [baseline_of scenario_env ''https://example.com'' 10 world0,
                      first_probe_of scenario_env ''https://example.com'' ''X-Forwarded-Host'' ''''
                        10 world0]\<rparr>)"
proof -
  have a: "http_get scenario_env (sent world0)
             (baseline_of scenario_env ''https://example.com'' 10 world0)
             = Response \<lparr>status_code = 200, headers = [], resp_text = ''ok''\<rparr>"
    by (simp add: scenario_env_def baseline_of_def baseline_request_def)
  have b: "http_get scenario_env
             (sent world0 @ [baseline_of scenario_env ''https://example.com'' 10 world0])
             (first_probe_of scenario_env ''https://example.com'' ''X-Forwarded-Host'' '''' 10 world0)
             = Response \<lparr>status_code = 302, headers = [(''Location'', ''https:///dashboard'')],
                         resp_text = []\<rparr>"
    by (simp add: scenario_env_def first_probe_of_def probe_request_def USER_AGENT_def)
  from verification_raises_on_empty_value [OF a _ b]
  show ?thesis by (simp add: world0_def)
qed

text \<open>
  The decision rule on the two scenarios of the specification: two probes redirected to the
  same Location give the first probe as finding; two probes redirected to different Locations
  give no finding.
\<close>

lemma decision_rule_scenarios:
  "recorded_probes scenario_env ''https://example.com'' ''X-Forwarded-Host'' ''evil.com'' 10 world0
     = Some [scenario_finding ''verify_1_1_bb'' ''https://evil.com/dashboard'',
             scenario_finding ''verify_1_2_cc'' ''https://evil.com/dashboard'']
   \<and> fst (verify_302_poisoning scenario_env ''https://example.com'' ''X-Forwarded-Host''
              ''evil.com'' 10 world0)
       = Inr (Some (scenario_finding ''verify_1_1_bb'' ''https://evil.com/dashboard''), None)
   \<and> recorded_probes unstable_env ''https://example.com'' ''X-Forwarded-Host'' ''evil.com'' 10 world0
       = Some [scenario_finding ''verify_1_1_bb'' ''https://evil.com/b'',
               scenario_finding ''verify_1_2_cc'' ''https://evil.com/c'']
   \<and> fst (verify_302_poisoning unstable_env ''https://example.com'' ''X-Forwarded-Host''
              ''evil.com'' 10 world0)
       = Inr (None, Some ''Inconsistent or insufficient 302 responses'')"
proof -
  have a: "recorded_probes scenario_env ''https://example.com'' ''X-Forwarded-Host'' ''evil.com'' 10
             world0
           = Some [scenario_finding ''verify_1_1_bb'' ''https://evil.com/dashboard'',
                   scenario_finding ''verify_1_2_cc'' ''https://evil.com/dashboard'']"
    by code_simp
  have b: "recorded_probes unstable_env ''https://example.com'' ''X-Forwarded-Host'' ''evil.com'' 10
             world0
           = Some [scenario_finding ''verify_1_1_bb'' ''https://evil.com/b'',
                   scenario_finding ''verify_1_2_cc'' ''https://evil.com/c'']"
    by code_simp
  from decision_rule [where e = scenario_env and url = "''https://example.com''"
      and hn = "''X-Forwarded-Host''" and hv = "''evil.com''" and t = 10 and w = world0
      and results = "[scenario_finding ''verify_1_1_bb'' ''https://evil.com/dashboard'',
                      scenario_finding ''verify_1_2_cc'' ''https://evil.com/dashboard'']",
      THEN conjunct1, rule_format, OF a]
  have c: "fst (verify_302_poisoning scenario_env ''https://example.com'' ''X-Forwarded-Host''
              ''evil.com'' 10 world0)
       = Inr (Some (scenario_finding ''verify_1_1_bb'' ''https://evil.com/dashboard''), None)"
    by (simp add: scenario_finding_def)
  from decision_rule [where e = unstable_env and url = "''https://example.com''"
      and hn = "''X-Forwarded-Host''" and hv = "''evil.com''" and t = 10 and w = world0
      and results = "[scenario_finding ''verify_1_1_bb'' ''https://evil.com/b'',
                      scenario_finding ''verify_1_2_cc'' ''https://evil.com/c'']",
      THEN conjunct1, rule_format, OF b]
  have d: "fst (verify_302_poisoning unstable_env ''https://example.com'' ''X-Forwarded-Host''
              ''evil.com'' 10 world0)
       = Inr (None, Some ''Inconsistent or insufficient 302 responses'')"
    by (simp add: scenario_finding_def)
  from a b c d show ?thesis by simp
qed

text \<open>C10 on the finding of the first scenario.\<close>

theorem verified_finding_reflects_witness:
  "fst (verify_302_poisoning scenario_env ''https://example.com'' ''X-Forwarded-Host''
          ''evil.com'' 10 world0)
     = Inr (Some (scenario_finding ''verify_1_1_bb'' ''https://evil.com/dashboard''), None)
   \<and> f_status_code (scenario_finding ''verify_1_1_bb'' ''https://evil.com/dashboard'') = 302
   \<and> ci_substring ''evil.com''
         (f_location (scenario_finding ''verify_1_1_bb'' ''https://evil.com/dashboard''))"
proof -
  have a: "fst (verify_302_poisoning scenario_env ''https://example.com'' ''X-Forwarded-Host''
          ''evil.com'' 10 world0)
     = Inr (Some (scenario_finding ''verify_1_1_bb'' ''https://evil.com/dashboard''), None)"
    by code_simp
  from verified_finding_reflects [OF a] a show ?thesis by simp
qed

text \<open>
  C7 on three environments: a failing baseline fetch, a baseline that already redirects to
  the payload host, and the first scenario, where probing starts.
\<close>

theorem baseline_rejection_witness:
  "verify_302_poisoning failing_env ''https://example.com'' ''X-Forwarded-Host'' ''evil.com'' 10 world0
     = (Inr (None, Some ''Error during verification: timed out''),
        world0\<lparr>sent := [baseline_of failing_env ''https://example.com'' 10 world0]\<rparr>)
   \<and> verify_302_poisoning redirecting_env ''https://example.com'' ''X-Forwarded-Host'' ''evil.com'' 10
         world0
       = (Inr (None, Some ''Baseline already contains payload in redirect''),
          world0\<lparr>sent := [baseline_of redirecting_env ''https://example.com'' 10 world0]\<rparr>)
   \<and> prefix [baseline_of scenario_env ''https://example.com'' 10 world0,
               first_probe_of scenario_env ''https://example.com'' ''X-Forwarded-Host'' ''evil.com''
                 10 world0]
         (sent (snd (verify_302_poisoning scenario_env ''https://example.com'' ''X-Forwarded-Host''
                       ''evil.com'' 10 world0)))"
proof -
  have a: "http_get failing_env (sent world0) (baseline_of failing_env ''https://example.com'' 10 world0)
             = RequestException ''timed out''"
    by (simp add: failing_env_def)
  have b: "http_get redirecting_env (sent world0)
             (baseline_of redirecting_env ''https://example.com'' 10 world0)
             = Response \<lparr>status_code = 302, headers = [(''location'', ''https://EVIL.com/'')],
                         resp_text = []\<rparr>"
    by (simp add: redirecting_env_def)
  have b': "ci_substring ''evil.com'' (header_get [(''location'', ''https://EVIL.com/'')] ''Location'' '''')"
    unfolding str_in_lower_ci [symmetric] by code_simp
  have c: "http_get scenario_env (sent world0)
             (baseline_of scenario_env ''https://example.com'' 10 world0)
             = Response \<lparr>status_code = 200, headers = [], resp_text = ''ok''\<rparr>"
    by (simp add: scenario_env_def baseline_of_def baseline_request_def)
  from a baseline_rejection [where e = failing_env and w = world0 and url = "''https://example.com''"
      and t = 10 and hn = "''X-Forwarded-Host''" and hv = "''evil.com''"]
  have 1: "verify_302_poisoning failing_env ''https://example.com'' ''X-Forwarded-Host'' ''evil.com''
             10 world0
     = (Inr (None, Some ''Error during verification: timed out''),
        world0\<lparr>sent := [baseline_of failing_env ''https://example.com'' 10 world0]\<rparr>)"
    by (simp add: world0_def)
  from b b' baseline_rejection [where e = redirecting_env and w = world0
      and url = "''https://example.com''" and t = 10 and hn = "''X-Forwarded-Host''"
      and hv = "''evil.com''"]
  have 2: "verify_302_poisoning redirecting_env ''https://example.com'' ''X-Forwarded-Host''
             ''evil.com'' 10 world0
       = (Inr (None, Some ''Baseline already contains payload in redirect''),
          world0\<lparr>sent := [baseline_of redirecting_env ''https://example.com'' 10 world0]\<rparr>)"
    by (simp add: world0_def)
  from c baseline_rejection [where e = scenario_env and w = world0
      and url = "''https://example.com''" and t = 10 and hn = "''X-Forwarded-Host''"
      and hv = "''evil.com''"]
  have 3: "prefix [baseline_of scenario_env ''https://example.com'' 10 world0,
               first_probe_of scenario_env ''https://example.com'' ''X-Forwarded-Host'' ''evil.com''
                 10 world0]
         (sent (snd (verify_302_poisoning scenario_env ''https://example.com'' ''X-Forwarded-Host''
                       ''evil.com'' 10 world0)))"
    by (simp add: world0_def)
  from 1 2 3 show ?thesis by simp
qed

section \<open>The scan mode\<close>

text \<open>
  C9. The mode does not influence a run of \<open>test_cache_poisoning\<close>: with the same
  environment, URL, files, timeout, progress bar and starting world, any two modes give the
  same final world, that is the same requests, the same sleeps, the same records appended to
  the finding log, the same log lines and the same progress calls.
\<close>

theorem mode_invariance:
  "test_cache_poisoning e url payloads_file output_file mode1 timeout pbar w
     = test_cache_poisoning e url payloads_file output_file mode2 timeout pbar w"
  by (simp add: test_cache_poisoning_def)

text \<open>
  C9 on the first scenario: the modes \<open>aggressive\<close> and \<open>standard\<close> give the same
  world, with three requests, the sleeps 1, 1 and 0.5 seconds and one appended record.
\<close>

theorem mode_invariance_witness:
  "test_cache_poisoning scenario_env ''https://example.com'' ''payloads.json'' ''results.txt''
     ''aggressive'' 10 True world0
   = test_cache_poisoning scenario_env ''https://example.com'' ''payloads.json'' ''results.txt''
       ''standard'' 10 True world0
   \<and> map rq_url (sent (test_cache_poisoning scenario_env ''https://example.com'' ''payloads.json''
         ''results.txt'' ''standard'' 10 True world0))
       = [''https://example.com?cb=verify_1_0_aa'', ''https://example.com?verify_1_1_bb'',
          ''https://example.com?verify_1_2_cc'']
   \<and> slept (test_cache_poisoning scenario_env ''https://example.com'' ''payloads.json''
         ''results.txt'' ''standard'' 10 True world0) = [1, 1, 0.5]
   \<and> map (\<lambda>(file, v). (file, vd_header v, vd_location v))
         (appended (test_cache_poisoning scenario_env ''https://example.com'' ''payloads.json''
            ''results.txt'' ''standard'' 10 True world0))
       = [(''results.txt'', ''X-Forwarded-Host: evil.com'', ''https://evil.com/dashboard'')]"
proof -
  have a: "map rq_url (sent (test_cache_poisoning scenario_env ''https://example.com'' ''payloads.json''
         ''results.txt'' ''standard'' 10 True world0))
       = [''https://example.com?cb=verify_1_0_aa'', ''https://example.com?verify_1_1_bb'',
          ''https://example.com?verify_1_2_cc'']"
    by code_simp
  have b: "slept (test_cache_poisoning scenario_env ''https://example.com'' ''payloads.json''
         ''results.txt'' ''standard'' 10 True world0) = [1, 1, 0.5]"
    by code_simp
  have c: "map (\<lambda>(file, v). (file, vd_header v, vd_location v))
         (appended (test_cache_poisoning scenario_env ''https://example.com'' ''payloads.json''
            ''results.txt'' ''standard'' 10 True world0))
       = [(''results.txt'', ''X-Forwarded-Host: evil.com'', ''https://evil.com/dashboard'')]"
    by code_simp
  from a b c mode_invariance [of scenario_env "''https://example.com''" "''payloads.json''"
      "''results.txt''" "''aggressive''" 10 True world0 "''standard''"]
  show ?thesis by simp
qed

section \<open>Properties of URL discovery\<close>

lemma plain_not_special:
  "plain c \<Longrightarrow> c \<noteq> CHR ''/'' \<and> c \<noteq> CHR ''?'' \<and> c \<noteq> CHR ''#'' \<and> c \<noteq> CHR '';'' \<and> c \<noteq> CHR '':''"
  by (auto simp: plain_def)

lemma plain_printable:
  "plain c \<Longrightarrow> \<not> (of_char c :: nat) \<le> 32 \<and> (of_char c :: nat) \<noteq> 9 \<and> (of_char c :: nat) \<noteq> 10
     \<and> (of_char c :: nat) \<noteq> 13"
  by (auto simp: plain_def)

lemma pathish_filter:
  "\<forall>c\<in>set t. plain c \<or> c = CHR ''/'' \<Longrightarrow> filter (\<lambda>c. (of_char c :: nat) \<notin> {9, 10, 13}) t = t"
  "\<forall>c\<in>set t. plain c \<or> c = CHR ''/'' \<Longrightarrow>
     filter (\<lambda>c. (of_char c :: nat) \<noteq> 9 \<and> (of_char c :: nat) \<noteq> 10 \<and> (of_char c :: nat) \<noteq> 13) t = t"
  by (induction t) (auto dest: plain_printable)

lemma pathish_hash:
  "\<forall>c\<in>set t. plain c \<or> c = CHR ''/'' \<Longrightarrow> takeWhile (\<lambda>c. c \<noteq> CHR ''#'') t = t"
  "\<forall>c\<in>set t. plain c \<or> c = CHR ''/'' \<Longrightarrow> dropWhile (\<lambda>c. c \<noteq> CHR ''#'') t = []"
  by (induction t) (auto dest: plain_not_special)

lemma pathish_question:
  "\<forall>c\<in>set t. plain c \<or> c = CHR ''/'' \<Longrightarrow> takeWhile (\<lambda>c. c \<noteq> CHR ''?'') t = t"
  "\<forall>c\<in>set t. plain c \<or> c = CHR ''/'' \<Longrightarrow> dropWhile (\<lambda>c. c \<noteq> CHR ''?'') t = []"
  by (induction t) (auto dest: plain_not_special)

lemma pathish_colon:
  "\<forall>c\<in>set t. plain c \<or> c = CHR ''/'' \<Longrightarrow> takeWhile (\<lambda>c. c \<noteq> CHR '':'') t = t"
  "\<forall>c\<in>set t. plain c \<or> c = CHR ''/'' \<Longrightarrow> dropWhile (\<lambda>c. c \<noteq> CHR '':'') t = []"
  by (induction t) (auto dest: plain_not_special)

lemma pathish_no_semicolon:
  "\<forall>c\<in>set t. plain c \<or> c = CHR ''/'' \<Longrightarrow> CHR '';'' \<notin> set t \<and> CHR '':'' \<notin> set t"
  by (auto dest: plain_not_special)

text \<open>
  URLs of the target \<open>https://example.com\<close> whose path consists of plain characters and
  slashes parse, join and normalise as expected; this covers the seed URLs and the links
  of the scenarios.
\<close>

lemma urlparse_on_target:
  assumes t: "\<forall>c\<in>set t. plain c \<or> c = CHR ''/''"
  shows "urlparse [] (''https://example.com/'' @ t)
           = Inr \<lparr>scheme = ''https'', netloc = ''example.com'', path = ''/'' @ t, params = [],
                   query = [], fragment = []\<rparr>"
proof -
  note f = pathish_filter [OF t]
  note h = pathish_hash [OF t]
  note q = pathish_question [OF t]
  note s = pathish_no_semicolon [OF t, THEN conjunct1]
  show ?thesis
    by (simp add: urlparse_def split_scheme_def before_def after_def is_ascii_alpha_def
          is_scheme_char_def lower_def lower_char_def is_netloc_delim_def uses_params_def Let_def
          f h q s)
qed

lemma urlparse_example_com:
  "urlparse [] ''https://example.com''
     = Inr \<lparr>scheme = ''https'', netloc = ''example.com'', path = [], params = [], query = [],
             fragment = []\<rparr>"
  by (simp add: urlparse_def split_scheme_def before_def after_def is_ascii_alpha_def
        is_scheme_char_def lower_def lower_char_def is_netloc_delim_def uses_params_def Let_def)

lemma plain_all_pathish: "\<forall>c\<in>set s. plain c \<Longrightarrow> \<forall>c\<in>set s. plain c \<or> c = CHR ''/''"
  by simp

lemma urlparse_rooted_segment:
  assumes s: "\<forall>c\<in>set s. plain c" and ne: "s \<noteq> []"
  shows "urlparse ''https'' (''/'' @ s)
           = Inr \<lparr>scheme = ''https'', netloc = [], path = ''/'' @ s, params = [], query = [],
                   fragment = []\<rparr>"
proof -
  from ne obtain c s' where cs: "s = c # s'" by (cases s) auto
  with s have c: "c \<noteq> CHR ''/''" by (auto dest: plain_not_special)
  note t = plain_all_pathish [OF s]
  note f = pathish_filter [OF t]
  note h = pathish_hash [OF t]
  note q = pathish_question [OF t]
  note k = pathish_colon [OF t]
  note n = pathish_no_semicolon [OF t, THEN conjunct1] pathish_no_semicolon [OF t, THEN conjunct2]
  have two: "take 2 (CHR ''/'' # s) \<noteq> ''//''" using cs c by simp
  show ?thesis
    using two
    by (simp add: urlparse_def split_scheme_def before_def after_def is_ascii_alpha_def
          is_scheme_char_def lower_def lower_char_def is_netloc_delim_def uses_params_def Let_def
          f h q k n)
qed

lemma split_on_plain: "\<forall>c\<in>set s. plain c \<Longrightarrow> split_on CHR ''/'' s = [s]"
  by (induction s) (auto dest: plain_not_special)

lemma rstrip_slash_snoc:
  "x \<noteq> CHR ''/'' \<Longrightarrow> rstrip_slash (p @ xs @ [x]) = p @ xs @ [x]"
  "x \<noteq> CHR ''/'' \<Longrightarrow> rstrip_slash (p @ (xs @ [x]) @ ''/'') = p @ xs @ [x]"
  by (simp_all add: rstrip_slash_def)

lemma rstrip_slash_plain:
  assumes s: "\<forall>c\<in>set s. plain c" and ne: "s \<noteq> []"
  shows "rstrip_slash (p @ s) = p @ s" and "rstrip_slash (p @ s @ ''/'') = p @ s"
proof -
  from ne s have "plain (last s)" by simp
  then have l: "last s \<noteq> CHR ''/''" by (auto dest: plain_not_special)
  from ne have s': "butlast s @ [last s] = s" by (rule append_butlast_last_id)
  from rstrip_slash_snoc(1) [OF l, of p "butlast s"] show "rstrip_slash (p @ s) = p @ s"
    unfolding s' .
  from rstrip_slash_snoc(2) [OF l, of p "butlast s"] show "rstrip_slash (p @ s @ ''/'') = p @ s"
    unfolding s' .
qed

lemma urljoin_rooted_segment:
  assumes s: "\<forall>c\<in>set s. plain c" and ne: "s \<noteq> []" and d1: "s \<noteq> ''.''" and d2: "s \<noteq> ''..''"
  shows "urljoin ''https://example.com'' (''/'' @ s) = Inr (''https://example.com/'' @ s)"
proof -
  have p: "urlparse ''https'' (CHR ''/'' # s)
        = Inr \<lparr>scheme = ''https'', netloc = [], path = CHR ''/'' # s, params = [], query = [],
                fragment = []\<rparr>"
    using urlparse_rooted_segment [OF s ne] by simp
  have seg: "split_on CHR ''/'' (CHR ''/'' # s) = [[], s]"
    by (simp add: split_on_plain [OF s])
  have res: "resolve_segments [[], s] [] = [[], s]"
    using d1 d2 by simp
  have j: "join_with CHR ''/'' [[], s] = CHR ''/'' # s"
    by simp
  show ?thesis
    unfolding urljoin_def urlparse_example_com
    using d1 d2
    by (simp add: p uses_relative_def uses_netloc_def seg res j urlunparse_def Let_def
          del: split_on.simps resolve_segments.simps join_with.simps)
qed

lemma normalize_path_on_target:
  assumes s: "\<forall>c\<in>set s. plain c" and ne: "s \<noteq> []" and d1: "s \<noteq> ''.''" and d2: "s \<noteq> ''..''"
  shows "normalize_path ''https://example.com'' (''https://example.com/'' @ s)
           = ''https://example.com/'' @ s"
    and "normalize_path ''https://example.com'' (''https://example.com/'' @ s @ ''/'')
           = ''https://example.com/'' @ s"
proof -
  have t1: "\<forall>c\<in>set s. plain c \<or> c = CHR ''/''" using s by simp
  have t2: "\<forall>c\<in>set (s @ ''/''). plain c \<or> c = CHR ''/''" using s by simp
  from rstrip_slash_plain [OF s ne, of "''/''"]
  have r: "rstrip_slash (CHR ''/'' # s) = CHR ''/'' # s"
    "rstrip_slash (CHR ''/'' # s @ ''/'') = CHR ''/'' # s" by simp_all
  from urljoin_rooted_segment [OF s ne d1 d2]
  have j: "urljoin ''https://example.com'' (CHR ''/'' # s) = Inr (''https://example.com/'' @ s)"
    by simp
  show "normalize_path ''https://example.com'' (''https://example.com/'' @ s)
           = ''https://example.com/'' @ s"
    unfolding normalize_path_def urlparse_on_target [OF t1] by (simp add: r j)
  show "normalize_path ''https://example.com'' (''https://example.com/'' @ s @ ''/'')
           = ''https://example.com/'' @ s"
    unfolding normalize_path_def urlparse_on_target [OF t2] by (simp add: r j)
qed

lemma fold_insert_set:
  "set (fold (\<lambda>e acc. List.insert (f e) acc) es acc0) = f ` set es \<union> set acc0"
  by (induction es arbitrary: acc0) auto

lemma fold_insert_length:
  "length (fold (\<lambda>e acc. List.insert (f e) acc) es acc0) \<le> length es + length acc0"
proof (induction es arbitrary: acc0)
  case Nil
  then show ?case by simp
next
  case (Cons e es)
  have "length (List.insert (f e) acc0) \<le> Suc (length acc0)"
    by (simp add: List.insert_def)
  with Cons [of "List.insert (f e) acc0"] show ?case by simp
qed

lemma urlparse_root_path:
  "urlparse ''https'' ''/''
     = Inr \<lparr>scheme = ''https'', netloc = [], path = ''/'', params = [], query = [],
             fragment = []\<rparr>"
  by (simp add: urlparse_def split_scheme_def before_def after_def is_ascii_alpha_def
        is_scheme_char_def lower_def lower_char_def is_netloc_delim_def uses_params_def Let_def)

lemma urljoin_root: "urljoin ''https://example.com'' ''/'' = Inr ''https://example.com/''"
  by (simp add: urljoin_def urlparse_example_com urlparse_root_path uses_relative_def
        uses_netloc_def urlunparse_def Let_def)

lemma normalize_path_root:
  "normalize_path ''https://example.com'' ''https://example.com//'' = ''https://example.com/''"
proof -
  have "urlparse [] (''https://example.com/'' @ ''/'')
          = Inr \<lparr>scheme = ''https'', netloc = ''example.com'', path = ''/'' @ ''/'', params = [],
                  query = [], fragment = []\<rparr>"
    by (rule urlparse_on_target) simp
  then show ?thesis
    by (simp add: normalize_path_def rstrip_slash_def urljoin_root)
qed

lemma common_endpoints_plain:
  "\<forall>e\<in>set common_endpoints. e = [] \<or> ((\<forall>c\<in>set e. plain c) \<and> e \<noteq> ''.'' \<and> e \<noteq> ''..'')"
  by (simp add: common_endpoints_def plain_def)

lemma seed_on_target:
  assumes "e \<in> set common_endpoints"
  shows "normalize_path ''https://example.com'' (''https://example.com'' @ ''/'' @ e @ ''/'')
           = ''https://example.com/'' @ e"
proof (cases "e = []")
  case True
  then show ?thesis using normalize_path_root by simp
next
  case False
  with assms common_endpoints_plain
  have p: "\<forall>c\<in>set e. plain c" and d: "e \<noteq> ''.''" "e \<noteq> ''..''" by blast+
  have "normalize_path ''https://example.com'' (''https://example.com/'' @ e @ ''/'')
           = ''https://example.com/'' @ e"
    using p False d by (rule normalize_path_on_target(2))
  then show ?thesis by simp
qed

lemma set_seed_urls:
  "set (seed_urls ''https://example.com'') = (\<lambda>e. ''https://example.com/'' @ e) ` set common_endpoints"
proof -
  have "(\<lambda>e. normalize_path ''https://example.com'' (''https://example.com'' @ ''/'' @ e @ ''/''))
          ` set common_endpoints
        = (\<lambda>e. ''https://example.com/'' @ e) ` set common_endpoints"
    by (rule image_cong [OF refl]) (rule seed_on_target)
  then show ?thesis
    unfolding seed_urls_def fold_insert_set by simp
qed

lemma length_seed_urls: "length (seed_urls ''https://example.com'') \<le> 43"
proof -
  have "length common_endpoints = 43" by (simp add: common_endpoints_def)
  with fold_insert_length [of "\<lambda>e. normalize_path ''https://example.com''
        (''https://example.com'' @ ''/'' @ e @ ''/'')" common_endpoints "[]"]
  show ?thesis unfolding seed_urls_def by simp
qed

lemma expansion_below_cap_weaken:
  "expansion_below_cap d' s' e \<Longrightarrow> s \<le> s' \<Longrightarrow> d \<le> d' \<Longrightarrow> expansion_below_cap d s e"
  by (auto simp: expansion_below_cap_def)

lemma card_discovered_mono:
  "set xs \<subseteq> set ys \<Longrightarrow> card (set xs) \<le> card (set ys)"
  by (rule card_mono) simp_all

text \<open>
  The invariant of the crawl, by induction along the mutual recursion of \<open>crawl_url\<close>
  and its loop: the discovered set grows, and the GETs a call adds to \<open>crawled\<close> are its
  own GET and recursive expansions below the cap.
\<close>

lemma crawl_invariant:
  shows "crawl_url get target td url depth max_depth st = Inr st' \<Longrightarrow>
          set (discovered_urls st) \<subseteq> set (discovered_urls st') \<and>
          (\<exists>new. crawled st' = crawled st @ new \<and>
             (\<forall>e\<in>set new. e = (url, depth, card (set (discovered_urls st)))
                  \<or> expansion_below_cap depth (card (set (discovered_urls st))) e))"
    and "crawl_found get target td url depth max_depth fs st = Inr st' \<Longrightarrow>
          set (discovered_urls st) \<subseteq> set (discovered_urls st') \<and>
          (\<exists>new. crawled st' = crawled st @ new \<and>
             (\<forall>e\<in>set new. expansion_below_cap depth (card (set (discovered_urls st))) e))"
proof (induction get target td url depth max_depth st and get target td url depth max_depth fs st
       arbitrary: st' and st' rule: crawl_url_crawl_found.induct)
  case (1 get target td url depth max_depth st)
  let ?own = "(url, depth, card (set (discovered_urls st)))"
  let ?st1 = "st\<lparr>crawled := crawled st @ [?own]\<rparr>"
  show ?case
  proof (cases "max_depth \<le> depth")
    case True
    with "1.prems" have "st' = st" by (simp add: crawl_url.simps)
    then show ?thesis by simp
  next
    case False
    show ?thesis
    proof (cases "get (map fst (crawled st)) url")
      case Page_exception
      with False "1.prems" have "st' = ?st1" by (simp add: crawl_url.simps)
      then show ?thesis by simp
    next
      case (Page r)
      show ?thesis
      proof (cases "page_status r = 200")
        case no: False
        with Page False "1.prems" have "st' = ?st1" by (simp add: crawl_url.simps)
        then show ?thesis by simp
      next
        case True
        with Page False "1.prems"
        have run: "crawl_found get target td url depth max_depth (page_urls r) ?st1 = Inr st'"
          by (simp add: crawl_url.simps)
        from "1.IH" [OF False refl Page True run]
        obtain new where sub: "set (discovered_urls ?st1) \<subseteq> set (discovered_urls st')"
          and cr: "crawled st' = crawled ?st1 @ new"
          and ok: "\<forall>e\<in>set new. expansion_below_cap depth (card (set (discovered_urls ?st1))) e"
          by blast
        from cr have "crawled st' = crawled st @ (?own # new)" by simp
        moreover from ok
        have "\<forall>e\<in>set (?own # new). e = ?own
                 \<or> expansion_below_cap depth (card (set (discovered_urls st))) e"
          by simp
        ultimately show ?thesis using sub by (intro conjI exI [of _ "?own # new"]) simp_all
      qed
    qed
  qed
next
  case (2 get target td url depth max_depth st)
  then show ?case by (simp add: crawl_found.simps)
next
  case (3 get target td url depth max_depth found_url rest st)
  let ?res = "if prefix ''/'' found_url then urljoin target found_url
              else if prefix ''http://'' found_url \<or> prefix ''https://'' found_url
                   then Inr found_url else urljoin url found_url"
  let ?c0 = "card (set (discovered_urls st))"
  from "3.prems" obtain b where b: "?res = Inr b"
    by (cases ?res) (simp_all add: crawl_found.simps)
  let ?st1 = "st\<lparr>discovered_urls := List.insert (normalize_path target b) (discovered_urls st)\<rparr>"
  let ?c1 = "card (set (discovered_urls ?st1))"
  have s01: "set (discovered_urls st) \<subseteq> set (discovered_urls ?st1)" by auto
  then have c01: "?c0 \<le> ?c1" by (rule card_discovered_mono)
  show ?case
  proof (cases "is_same_domain td b \<and> b \<notin> set (discovered_urls st)")
    case keep: True
    show ?thesis
    proof (cases "?c1 < MAX_URLS \<and> depth < max_depth - 1")
      case expand: True
      from "3.prems" b keep expand obtain st2
        where c1: "crawl_url get target td b (depth + 1) max_depth ?st1 = Inr st2"
          and c2: "crawl_found get target td url depth max_depth rest st2 = Inr st'"
        by (cases "crawl_url get target td b (depth + 1) max_depth ?st1")
           (auto simp add: crawl_found.simps(2) Let_def split: if_splits)
      from "3.IH"(1) [OF b keep refl expand c1]
      obtain n1 where s1: "set (discovered_urls ?st1) \<subseteq> set (discovered_urls st2)"
        and cr1: "crawled st2 = crawled ?st1 @ n1"
        and ok1: "\<forall>e\<in>set n1. e = (b, depth + 1, ?c1) \<or> expansion_below_cap (depth + 1) ?c1 e"
        by blast
      from "3.IH"(2) [OF b keep refl expand c1 c2]
      obtain n2 where s2: "set (discovered_urls st2) \<subseteq> set (discovered_urls st')"
        and cr2: "crawled st' = crawled st2 @ n2"
        and ok2: "\<forall>e\<in>set n2. expansion_below_cap depth (card (set (discovered_urls st2))) e"
        by blast
      from s1 have c12: "?c1 \<le> card (set (discovered_urls st2))" by (rule card_discovered_mono)
      have own: "expansion_below_cap depth ?c0 (b, depth + 1, ?c1)"
        using expand c01 by (simp add: expansion_below_cap_def)
      have ok1': "\<forall>e\<in>set n1. expansion_below_cap depth ?c0 e"
      proof
        fix e assume "e \<in> set n1"
        with ok1 have "e = (b, depth + 1, ?c1) \<or> expansion_below_cap (depth + 1) ?c1 e"
          by blast
        then show "expansion_below_cap depth ?c0 e"
        proof
          assume "e = (b, depth + 1, ?c1)"
          with own show ?thesis by simp
        next
          assume "expansion_below_cap (depth + 1) ?c1 e"
          then show ?thesis using c01 by (rule expansion_below_cap_weaken) simp
        qed
      qed
      have ok2': "\<forall>e\<in>set n2. expansion_below_cap depth ?c0 e"
      proof
        fix e assume "e \<in> set n2"
        with ok2 have "expansion_below_cap depth (card (set (discovered_urls st2))) e" by blast
        moreover from c01 c12 have "?c0 \<le> card (set (discovered_urls st2))" by simp
        ultimately show "expansion_below_cap depth ?c0 e"
          by (rule expansion_below_cap_weaken) simp
      qed
      from cr1 cr2 have "crawled st' = crawled st @ (n1 @ n2)" by simp
      moreover from ok1' ok2' have "\<forall>e\<in>set (n1 @ n2). expansion_below_cap depth ?c0 e"
        by auto
      moreover from s01 s1 s2 have "set (discovered_urls st) \<subseteq> set (discovered_urls st')"
        by blast
      ultimately show ?thesis by blast
    next
      case stop: False
      from "3.prems" b keep stop
      have c: "crawl_found get target td url depth max_depth rest ?st1 = Inr st'"
        by (auto simp add: crawl_found.simps(2) Let_def split: if_splits)
      from "3.IH"(3) [OF b keep refl stop c]
      obtain n2 where s2: "set (discovered_urls ?st1) \<subseteq> set (discovered_urls st')"
        and cr2: "crawled st' = crawled ?st1 @ n2"
        and ok2: "\<forall>e\<in>set n2. expansion_below_cap depth ?c1 e"
        by blast
      have "\<forall>e\<in>set n2. expansion_below_cap depth ?c0 e"
      proof
        fix e assume "e \<in> set n2"
        with ok2 have "expansion_below_cap depth ?c1 e" by blast
        then show "expansion_below_cap depth ?c0 e"
          using c01 by (rule expansion_below_cap_weaken) simp
      qed
      moreover from cr2 have "crawled st' = crawled st @ n2" by simp
      moreover from s01 s2 have "set (discovered_urls st) \<subseteq> set (discovered_urls st')" by blast
      ultimately show ?thesis by blast
    qed
  next
    case skip: False
    from "3.prems" b skip
    have c: "crawl_found get target td url depth max_depth rest st = Inr st'"
      by (auto simp add: crawl_found.simps(2) Let_def split: if_splits)
    from "3.IH"(4) [OF b skip c] show ?thesis .
  qed
qed

text \<open>
  C3, amended. The discovered set only grows during a crawl and is not bounded by
  \<open>MAX_URLS\<close>; but every GET that a crawl issues at a depth greater than its own (a
  recursive expansion of a newly found URL) is issued while the set holds fewer than
  \<open>MAX_URLS\<close> URLs, and once the set has reached \<open>MAX_URLS\<close> the loop over the references
  of a page issues no GET at all. (Both parts are about crawls that end without a
  \<^verbatim>\<open>ValueError\<close>.)
\<close>

theorem crawl_expansion_capped:
  "(crawl_url get target td url depth max_depth st = Inr st' \<longrightarrow>
      set (discovered_urls st) \<subseteq> set (discovered_urls st') \<and>
      (\<exists>new. crawled st' = crawled st @ new \<and>
         (\<forall>e\<in>set new. depth < fst (snd e) \<longrightarrow> snd (snd e) < MAX_URLS)))
   \<and> (crawl_found get target td url depth max_depth fs st = Inr st' \<longrightarrow>
        MAX_URLS \<le> card (set (discovered_urls st)) \<longrightarrow> crawled st' = crawled st)"
proof (intro conjI impI)
  assume run: "crawl_url get target td url depth max_depth st = Inr st'"
  from crawl_invariant(1) [OF run]
  obtain new where "crawled st' = crawled st @ new"
    and "\<forall>e\<in>set new. e = (url, depth, card (set (discovered_urls st)))
            \<or> expansion_below_cap depth (card (set (discovered_urls st))) e"
    by blast
  then have "crawled st' = crawled st @ new \<and>
      (\<forall>e\<in>set new. depth < fst (snd e) \<longrightarrow> snd (snd e) < MAX_URLS)"
    by (auto simp: expansion_below_cap_def)
  then show "\<exists>new. crawled st' = crawled st @ new \<and>
      (\<forall>e\<in>set new. depth < fst (snd e) \<longrightarrow> snd (snd e) < MAX_URLS)" ..
  from crawl_invariant(1) [OF run]
  show "set (discovered_urls st) \<subseteq> set (discovered_urls st')" by blast
next
  assume run: "crawl_found get target td url depth max_depth fs st = Inr st'"
    and cap: "MAX_URLS \<le> card (set (discovered_urls st))"
  from crawl_invariant(2) [OF run]
  obtain new where cr: "crawled st' = crawled st @ new"
    and ok: "\<forall>e\<in>set new. expansion_below_cap depth (card (set (discovered_urls st))) e"
    by blast
  from ok cap have "new = []"
    by (cases new) (auto simp: expansion_below_cap_def)
  with cr show "crawled st' = crawled st" by simp
qed

lemma filter_urls_bounded:
  "distinct acc \<Longrightarrow> length acc \<le> MAX_URLS \<Longrightarrow>
   distinct (filter_urls td xs acc) \<and> length (filter_urls td xs acc) \<le> MAX_URLS"
proof (induction xs arbitrary: acc)
  case Nil
  then show ?case by simp
next
  case (Cons url rest)
  show ?case
  proof (cases "urlparse [] url")
    case (Inl err)
    with Cons show ?thesis by simp
  next
    case (Inr parsed)
    show ?thesis
    proof (cases "lower (splitext_ext (path parsed)) \<notin> set excluded_extensions
                  \<and> is_same_domain td url \<and> card (set acc) < MAX_URLS")
      case True
      with Cons.prems have "distinct (List.insert url acc)" "length (List.insert url acc) \<le> MAX_URLS"
        by (auto simp: distinct_card List.insert_def)
      from Cons.IH [OF this] Inr True show ?thesis by (simp add: Let_def)
    next
      case False
      with Cons Inr show ?thesis by (auto simp: Let_def)
    qed
  qed
qed

text \<open>
  The list \<open>discover_urls\<close> returns has no duplicates and never more than \<open>MAX_URLS\<close>
  entries, whatever the order in which the filter visits the discovered URLs.
\<close>

lemma discover_urls_bounded:
  "discover_urls get target = Inr us \<Longrightarrow> distinct us \<and> length us \<le> MAX_URLS"
  using filter_urls_bounded [of "[]"]
  by (auto simp: discover_urls_def Let_def MAX_URLS_def split: sum.splits)

lemma filter_urls_keeps:
  assumes "u \<in> set xs \<or> u \<in> set acc" and "length xs + card (set acc) \<le> MAX_URLS"
    and "urlparse [] u = Inr p" and "lower (splitext_ext (path p)) \<notin> set excluded_extensions"
    and "is_same_domain td u"
  shows "u \<in> set (filter_urls td xs acc)"
  using assms(1,2)
proof (induction xs arbitrary: acc)
  case Nil
  then show ?case by simp
next
  case (Cons url rest)
  have ins: "length rest + card (set (List.insert url acc)) \<le> MAX_URLS"
    using Cons.prems(2) by (simp add: card_insert_if)
  have same: "length rest + card (set acc) \<le> MAX_URLS"
    using Cons.prems(2) by simp
  show ?case
  proof (cases "u = url")
    case True
    from Cons.prems(2) have "card (set acc) < MAX_URLS" by simp
    with True assms(3,4,5) have "filter_urls td (url # rest) acc
        = filter_urls td rest (List.insert url acc)"
      by (simp add: Let_def)
    moreover have "u \<in> set (filter_urls td rest (List.insert url acc))"
      using True ins by (intro Cons.IH) simp_all
    ultimately show ?thesis by simp
  next
    case False
    with Cons.prems(1) have m: "u \<in> set rest \<or> u \<in> set acc" by auto
    then have m': "u \<in> set rest \<or> u \<in> set (List.insert url acc)" by auto
    from Cons.IH [OF m same] Cons.IH [OF m' ins]
    show ?thesis by (auto simp: Let_def split: sum.splits)
  qed
qed

lemma urlparse_evil_a:
  "urlparse [] ''https://evil.com/a''
     = Inr \<lparr>scheme = ''https'', netloc = ''evil.com'', path = ''/a'', params = [], query = [],
             fragment = []\<rparr>"
  by (simp add: urlparse_def split_scheme_def before_def after_def is_ascii_alpha_def
        is_scheme_char_def lower_def lower_char_def is_netloc_delim_def uses_params_def Let_def)

lemma urlparse_evil_x:
  "urlparse [] ''https://evil.com/x''
     = Inr \<lparr>scheme = ''https'', netloc = ''evil.com'', path = ''/x'', params = [], query = [],
             fragment = []\<rparr>"
  by (simp add: urlparse_def split_scheme_def before_def after_def is_ascii_alpha_def
        is_scheme_char_def lower_def lower_char_def is_netloc_delim_def uses_params_def Let_def)

lemma urlparse_network_path:
  "urlparse ''https'' ''//evil.com/x''
     = Inr \<lparr>scheme = ''https'', netloc = ''evil.com'', path = ''/x'', params = [], query = [],
             fragment = []\<rparr>"
  by (simp add: urlparse_def split_scheme_def before_def after_def is_ascii_alpha_def
        is_scheme_char_def lower_def lower_char_def is_netloc_delim_def uses_params_def Let_def)

lemma same_domain_evil_a: "is_same_domain ''example.com'' ''https://evil.com/a''"
  by (simp add: is_same_domain_def urlparse_evil_a)

lemma same_domain_evil_x: "is_same_domain ''example.com'' ''https://evil.com/x''"
  by (simp add: is_same_domain_def urlparse_evil_x)

lemma normalize_path_evil_a:
  "normalize_path ''https://example.com'' ''https://evil.com/a'' = ''https://example.com/a''"
proof -
  have "urljoin ''https://example.com'' (''/'' @ ''a'') = Inr (''https://example.com/'' @ ''a'')"
    by (rule urljoin_rooted_segment) (simp_all add: plain_def)
  then show ?thesis
    by (simp add: normalize_path_def urlparse_evil_a rstrip_slash_def)
qed

lemma urlparse_double_slash:
  "urlparse [] ''https://example.com//evil.com/x''
     = Inr \<lparr>scheme = ''https'', netloc = ''example.com'', path = ''//evil.com/x'', params = [],
             query = [], fragment = []\<rparr>"
proof -
  have "urlparse [] (''https://example.com/'' @ ''/evil.com/x'')
     = Inr \<lparr>scheme = ''https'', netloc = ''example.com'', path = ''/'' @ ''/evil.com/x'',
             params = [], query = [], fragment = []\<rparr>"
    by (rule urlparse_on_target) (simp add: plain_def)
  then show ?thesis by simp
qed

lemma same_domain_double_slash: "is_same_domain ''example.com'' ''https://example.com//evil.com/x''"
  by (simp add: is_same_domain_def urlparse_double_slash)

lemma urljoin_network_path:
  "urljoin ''https://example.com'' ''//evil.com/x'' = Inr ''https://evil.com/x''"
  by (simp add: urljoin_def urlparse_example_com urlparse_network_path uses_relative_def
        uses_netloc_def urlunparse_def Let_def)

lemma normalize_path_double_slash:
  "normalize_path ''https://example.com'' ''https://example.com//evil.com/x'' = ''https://evil.com/x''"
  by (simp add: normalize_path_def urlparse_double_slash rstrip_slash_def urljoin_network_path)

lemma not_a_seed:
  "\<not> prefix ''https://example.com/'' u \<Longrightarrow> u \<notin> set (seed_urls ''https://example.com'')"
  by (auto simp: set_seed_urls)

lemma double_slash_not_a_seed:
  "''https://example.com//evil.com/x'' \<notin> set (seed_urls ''https://example.com'')"
  by (simp add: set_seed_urls common_endpoints_def image_iff)

lemma card_seeded: "card (set (x # seed_urls ''https://example.com'')) < MAX_URLS"
proof -
  have "card (set (x # seed_urls ''https://example.com'')) \<le> length (x # seed_urls ''https://example.com'')"
    by (rule card_length)
  with length_seed_urls show ?thesis by (simp add: MAX_URLS_def)
qed

lemma crawl_evil_link:
  "crawl_url evil_link_fetch ''https://example.com'' ''example.com'' ''https://example.com'' 0 2 seeded
     = Inr \<lparr>discovered_urls = List.insert ''https://example.com/a'' (seed_urls ''https://example.com''),
             crawled = [(''https://example.com'', 0, card (set (seed_urls ''https://example.com''))),
                        (''https://evil.com/a'', 1,
                         card (set (List.insert ''https://example.com/a''
                                      (seed_urls ''https://example.com''))))]\<rparr>"
proof -
  have n: "''https://evil.com/a'' \<notin> set (seed_urls ''https://example.com'')"
    by (rule not_a_seed) simp
  have c: "card (set (List.insert ''https://example.com/a'' (seed_urls ''https://example.com'')))
             < MAX_URLS"
    using card_seeded [of "''https://example.com/a''"] by simp
  show ?thesis
    using n c
    by (simp add: crawl_url.simps crawl_found.simps evil_link_fetch_def seeded_def
          same_domain_evil_a normalize_path_evil_a Let_def del: List.set_insert)
qed

lemma crawl_double_slash:
  "crawl_url double_slash_fetch ''https://example.com'' ''example.com'' ''https://example.com'' 0 2
     seeded
     = Inr \<lparr>discovered_urls = List.insert ''https://evil.com/x'' (seed_urls ''https://example.com''),
             crawled = [(''https://example.com'', 0, card (set (seed_urls ''https://example.com''))),
                        (''https://example.com//evil.com/x'', 1,
                         card (set (List.insert ''https://evil.com/x''
                                      (seed_urls ''https://example.com''))))]\<rparr>"
proof -
  have c: "card (set (List.insert ''https://evil.com/x'' (seed_urls ''https://example.com'')))
             < MAX_URLS"
    using card_seeded [of "''https://evil.com/x''"] by simp
  show ?thesis
    using double_slash_not_a_seed c
    by (simp add: crawl_url.simps crawl_found.simps double_slash_fetch_def seeded_def
          same_domain_double_slash normalize_path_double_slash Let_def del: List.set_insert)
qed

lemma discover_double_slash:
  "\<exists>us. discover_urls double_slash_fetch ''https://example.com'' = Inr us
        \<and> ''https://evil.com/x'' \<in> set us"
proof -
  let ?d = "List.insert ''https://evil.com/x'' (seed_urls ''https://example.com'')"
  have run: "discover_urls double_slash_fetch ''https://example.com''
               = Inr (filter_urls ''example.com'' ?d [])"
    using crawl_double_slash
    by (simp add: discover_urls_def urlparse_example_com seeded_def Let_def del: List.set_insert)
  have len: "length ?d + card (set ([] :: string list)) \<le> MAX_URLS"
    using length_seed_urls by (simp add: MAX_URLS_def List.insert_def)
  have ext: "lower (splitext_ext ''/x'') \<notin> set excluded_extensions"
    by (simp add: splitext_ext_def after_last_def lower_def excluded_extensions_def)
  have "''https://evil.com/x'' \<in> set (filter_urls ''example.com'' ?d [])"
    by (rule filter_urls_keeps [OF _ len urlparse_evil_x _ same_domain_evil_x])
       (simp_all add: ext)
  with run show ?thesis by simp
qed

lemma link_parts:
  "\<forall>c\<in>set (replicate (Suc i) CHR ''a''). plain c"
  "replicate (Suc i) CHR ''a'' \<noteq> []"
  "replicate (Suc i) CHR ''a'' \<noteq> ''.''"
  "replicate (Suc i) CHR ''a'' \<noteq> ''..''"
  by (simp_all add: plain_def)

lemma link_same_domain: "is_same_domain ''example.com'' (link i)"
proof -
  have "\<forall>c\<in>set (replicate (Suc i) CHR ''a''). plain c \<or> c = CHR ''/''"
    by (simp add: plain_def)
  from urlparse_on_target [OF this] show ?thesis
    by (simp add: is_same_domain_def link_def)
qed

lemma link_normal: "normalize_path ''https://example.com'' (link i) = link i"
  unfolding link_def by (rule normalize_path_on_target(1) [OF link_parts])

lemma link_shape:
  "\<not> prefix ''/'' (link i)" "prefix ''https://'' (link i)" "link i \<noteq> ''https://example.com''"
  by (simp_all add: link_def)

lemma link_inj: "link i = link j \<Longrightarrow> i = j"
proof -
  assume "link i = link j"
  then have "length (link i) = length (link j)" by simp
  then show "i = j" by (simp add: link_def)
qed

lemma crawl_link_leaf:
  "crawl_url many_links_fetch ''https://example.com'' ''example.com'' (link i) (Suc 0) 2 st
     = Inr (st\<lparr>crawled := crawled st @ [(link i, Suc 0, card (set (discovered_urls st)))]\<rparr>)"
  by (simp add: crawl_url.simps many_links_fetch_def link_shape)

lemma crawl_links:
  "\<forall>f\<in>set fs. \<exists>i. f = link i \<Longrightarrow>
   \<exists>st'. crawl_found many_links_fetch ''https://example.com'' ''example.com''
           ''https://example.com'' 0 2 fs st = Inr st'
         \<and> set fs \<union> set (discovered_urls st) \<subseteq> set (discovered_urls st')"
proof (induction fs arbitrary: st)
  case Nil
  then show ?case by (simp add: crawl_found.simps)
next
  case (Cons f rest)
  then obtain i where f: "f = link i" by auto
  from Cons.prems have rest: "\<forall>f\<in>set rest. \<exists>i. f = link i" by simp
  let ?st1 = "st\<lparr>discovered_urls := List.insert (link i) (discovered_urls st)\<rparr>"
  let ?st2 = "?st1\<lparr>crawled := crawled ?st1 @ [(link i, 1, card (set (discovered_urls ?st1)))]\<rparr>"
  show ?case
  proof (cases "link i \<in> set (discovered_urls st)")
    case True
    then have "crawl_found many_links_fetch ''https://example.com'' ''example.com''
           ''https://example.com'' 0 2 (f # rest) st
       = crawl_found many_links_fetch ''https://example.com'' ''example.com''
           ''https://example.com'' 0 2 rest st"
      by (simp add: crawl_found.simps(2) f link_shape)
    with Cons.IH [OF rest, of st] True f show ?thesis by auto
  next
    case False
    show ?thesis
    proof (cases "card (set (discovered_urls ?st1)) < MAX_URLS")
      case True
      with False have "crawl_found many_links_fetch ''https://example.com'' ''example.com''
           ''https://example.com'' 0 2 (f # rest) st
       = crawl_found many_links_fetch ''https://example.com'' ''example.com''
           ''https://example.com'' 0 2 rest ?st2"
        by (simp add: crawl_found.simps(2) f link_shape link_same_domain link_normal
              crawl_link_leaf Let_def del: List.set_insert)
      with Cons.IH [OF rest, of ?st2] f show ?thesis by auto
    next
      case no: False
      with False have "crawl_found many_links_fetch ''https://example.com'' ''example.com''
           ''https://example.com'' 0 2 (f # rest) st
       = crawl_found many_links_fetch ''https://example.com'' ''example.com''
           ''https://example.com'' 0 2 rest ?st1"
        by (simp add: crawl_found.simps(2) f link_shape link_same_domain link_normal
              Let_def del: List.set_insert)
      with Cons.IH [OF rest, of ?st1] f show ?thesis by auto
    qed
  qed
qed

text \<open>
  C3, as stated, fails: when the root page of \<open>https://example.com\<close> links to 1001
  distinct URLs of the target, the crawl that \<open>discover_urls\<close> starts ends with more than
  \<open>MAX_URLS\<close> discovered URLs, since additions to the set are not guarded by the cap.
\<close>

theorem discovered_exceeds_cap_counterexample:
  "MAX_URLS < card (set (discovered_of
      (crawl_url many_links_fetch ''https://example.com'' ''example.com'' ''https://example.com''
         0 2 seeded)))"
proof -
  let ?st1 = "seeded\<lparr>crawled := crawled seeded
                @ [(''https://example.com'', 0, card (set (discovered_urls seeded)))]\<rparr>"
  have run: "crawl_url many_links_fetch ''https://example.com'' ''example.com''
               ''https://example.com'' 0 2 seeded
             = crawl_found many_links_fetch ''https://example.com'' ''example.com''
                 ''https://example.com'' 0 2 (map link [0..<1001]) ?st1"
    by (simp add: crawl_url.simps many_links_fetch_def)
  have "\<forall>f\<in>set (map link [0..<1001]). \<exists>i. f = link i" by auto
  from crawl_links [OF this, of ?st1]
  obtain st' where st': "crawl_found many_links_fetch ''https://example.com'' ''example.com''
                 ''https://example.com'' 0 2 (map link [0..<1001]) ?st1 = Inr st'"
    and sub: "set (map link [0..<1001]) \<subseteq> set (discovered_urls st')"
    by auto
  have "distinct (map link [0..<1001])"
    by (simp add: distinct_map inj_on_def) (blast dest: link_inj)
  then have "card (set (map link [0..<1001])) = length (map link [0..<1001])"
    by (rule distinct_card)
  then have "card (set (map link [0..<1001])) = 1001"
    by simp
  moreover from sub have "card (set (map link [0..<1001])) \<le> card (set (discovered_urls st'))"
    by (rule card_discovered_mono)
  ultimately have "1001 \<le> card (set (discovered_urls st'))" by simp
  then show ?thesis
    by (simp add: run st' discovered_of_def MAX_URLS_def)
qed

lemma distinct_links: "distinct (map link [0..<n])"
  by (simp add: distinct_map inj_on_def) (blast dest: link_inj)

lemma card_at_cap: "card (set (discovered_urls at_cap)) = 1000"
proof -
  have "card (set (map link [0..<1000])) = length (map link [0..<1000])"
    using distinct_links by (rule distinct_card)
  then show ?thesis by (simp add: at_cap_def)
qed

lemma crawl_found_at_cap:
  "crawl_found many_links_fetch ''https://example.com'' ''example.com'' ''https://example.com'' 0 2
     [link 1000] at_cap
   = Inr (at_cap\<lparr>discovered_urls := link 1000 # map link [0..<1000]\<rparr>)"
proof -
  have new: "link 1000 \<notin> set (discovered_urls at_cap)"
    by (auto simp: at_cap_def dest: link_inj)
  have "card (set (link 1000 # discovered_urls at_cap)) = Suc (card (set (discovered_urls at_cap)))"
    using new by simp
  then have full: "\<not> card (set (link 1000 # discovered_urls at_cap)) < MAX_URLS"
    by (simp add: card_at_cap MAX_URLS_def)
  from new have ins: "List.insert (link 1000) (discovered_urls at_cap)
                        = link 1000 # discovered_urls at_cap"
    by (simp add: List.insert_def)
  have d: "discovered_urls at_cap = map link [0..<1000]" by (simp add: at_cap_def)
  show ?thesis
    using new full
    by (simp add: crawl_found.simps link_shape link_same_domain link_normal ins Let_def
          del: List.set_insert list.set upt_Suc)
       (simp only: d)
qed

text \<open>
  The amended C3 on two runs: the crawl of the out-of-domain scenario, whose one recursive
  GET was issued below the cap, and the loop over one new reference in a state at the cap,
  which adds the URL and issues no GET.
\<close>

theorem crawl_expansion_capped_witness:
  "crawl_url evil_link_fetch ''https://example.com'' ''example.com'' ''https://example.com'' 0 2 seeded
     = Inr \<lparr>discovered_urls = List.insert ''https://example.com/a'' (seed_urls ''https://example.com''),
             crawled = [(''https://example.com'', 0, card (set (seed_urls ''https://example.com''))),
                        (''https://evil.com/a'', 1,
                         card (set (List.insert ''https://example.com/a''
                                      (seed_urls ''https://example.com''))))]\<rparr>
   \<and> card (set (List.insert ''https://example.com/a'' (seed_urls ''https://example.com'')))
       < MAX_URLS
   \<and> crawl_found many_links_fetch ''https://example.com'' ''example.com'' ''https://example.com''
         0 2 [link 1000] at_cap
       = Inr (at_cap\<lparr>discovered_urls := link 1000 # map link [0..<1000]\<rparr>)
   \<and> MAX_URLS \<le> card (set (discovered_urls at_cap))
   \<and> crawled (at_cap\<lparr>discovered_urls := link 1000 # map link [0..<1000]\<rparr>) = crawled at_cap"
proof -
  let ?st = "\<lparr>discovered_urls = List.insert ''https://example.com/a'' (seed_urls ''https://example.com''),
             crawled = [(''https://example.com'', 0, card (set (seed_urls ''https://example.com''))),
                        (''https://evil.com/a'', 1,
                         card (set (List.insert ''https://example.com/a''
                                      (seed_urls ''https://example.com''))))]\<rparr>"
  note run = crawl_evil_link
  from crawl_expansion_capped [where get = evil_link_fetch and target = "''https://example.com''"
      and td = "''example.com''" and url = "''https://example.com''" and depth = 0 and max_depth = 2
      and st = seeded and st' = ?st, THEN conjunct1, rule_format, OF run]
  obtain new where new: "crawled ?st = crawled seeded @ new"
    and ok: "\<forall>e\<in>set new. 0 < fst (snd e) \<longrightarrow> snd (snd e) < MAX_URLS"
    by blast
  from new have "new = [(''https://example.com'', 0, card (set (seed_urls ''https://example.com''))),
      (''https://evil.com/a'', 1,
       card (set (List.insert ''https://example.com/a'' (seed_urls ''https://example.com''))))]"
    by (simp add: seeded_def)
  then have "(''https://evil.com/a'', 1,
      card (set (List.insert ''https://example.com/a'' (seed_urls ''https://example.com'')))) \<in> set new"
    by (simp del: List.set_insert)
  with ok have below: "card (set (List.insert ''https://example.com/a''
      (seed_urls ''https://example.com''))) < MAX_URLS"
    by fastforce
  have cap: "MAX_URLS \<le> card (set (discovered_urls at_cap))"
    by (simp add: card_at_cap MAX_URLS_def)
  from crawl_expansion_capped [where get = many_links_fetch and target = "''https://example.com''"
      and td = "''example.com''" and url = "''https://example.com''" and depth = 0 and max_depth = 2
      and fs = "[link 1000]" and st = at_cap
      and st' = "at_cap\<lparr>discovered_urls := link 1000 # map link [0..<1000]\<rparr>",
      THEN conjunct2, rule_format, OF crawl_found_at_cap cap]
  have same: "crawled (at_cap\<lparr>discovered_urls := link 1000 # map link [0..<1000]\<rparr>)
                = crawled at_cap" .
  from run below crawl_found_at_cap cap same show ?thesis by (intro conjI)
qed

text \<open>
  C2. An extracted absolute URL whose host is not the target's should be discarded. For the
  target \<open>https://example.com\<close> whose root page links to \<open>https://evil.com/a\<close>, the
  domain check accepts the URL (its path starts with a slash), its path is added to the
  discovered set as \<open>https://example.com/a\<close>, and the URL itself is crawled: the second
  GET of the crawl goes to \<open>evil.com\<close>.
\<close>

theorem out_of_domain_url_crawled:
  "is_same_domain ''example.com'' ''https://evil.com/a''
   \<and> (\<exists>st. crawl_url evil_link_fetch ''https://example.com'' ''example.com''
               ''https://example.com'' 0 2 seeded = Inr st
            \<and> ''https://example.com/a'' \<in> set (discovered_urls st)
            \<and> map fst (crawled st) = [''https://example.com'', ''https://evil.com/a''])"
  using same_domain_evil_a by (simp add: crawl_evil_link)

text \<open>
  C5. Every URL that \<open>discover_urls\<close> returns should have the target's host. When the
  root page of \<open>https://example.com\<close> links to \<open>https://example.com//evil.com/x\<close>, the
  returned list contains \<open>https://evil.com/x\<close>, whose network location is \<open>evil.com\<close>
  and not \<open>example.com\<close>. (The bound of the claim holds: see \<open>discover_urls_bounded\<close>.)
\<close>

theorem foreign_host_returned:
  "(\<exists>us. discover_urls double_slash_fetch ''https://example.com'' = Inr us
         \<and> ''https://evil.com/x'' \<in> set us)
   \<and> urlparse [] ''https://evil.com/x''
       = Inr \<lparr>scheme = ''https'', netloc = ''evil.com'', path = ''/x'', params = [], query = [],
               fragment = []\<rparr>
   \<and> urlparse [] ''https://example.com''
       = Inr \<lparr>scheme = ''https'', netloc = ''example.com'', path = [], params = [], query = [],
               fragment = []\<rparr>"
  using discover_double_slash urlparse_evil_x urlparse_example_com by (intro conjI)

end
